theory Spec2Isabelle
  imports Complex_Main
begin

section \<open>Data model\<close>

text \<open>
  Every JavaScript number is modelled as a real, except cell coordinates, which the code
  only ever produces with \<open>Math.floor\<close> or by adding \<open>-1\<close>, \<open>0\<close>, \<open>1\<close> to a
  coordinate, and which are integers here. The grid dimension is a natural number (it is
  the length of the arrays that \<open>new Array(this.gridSize)\<close> allocates).
\<close>

record latlng =
  lat :: real
  lng :: real

record bounds =
  minLat :: real
  maxLat :: real
  minLng :: real
  maxLng :: real

text \<open>A grid cell \<open>{x, y}\<close> is the pair \<open>(x, y)\<close>.\<close>

type_synonym node = "int \<times> int"

section \<open>Grid mapping\<close>

text \<open>
  \<open>latLngToGrid\<close> and \<open>isValid\<close> have the same body in \<open>Pathfinder\<close> and in
  \<open>WeatherSystem\<close>; both classes read \<open>this.bounds\<close> and \<open>this.gridSize\<close>, which
  are the first two arguments here.

  The region is the one that the map reports, with \<open>minLat < maxLat\<close> and
  \<open>minLng < maxLng\<close>, and the statements about \<open>latLngToGrid\<close> that depend on the
  quotient assume so. On a region of zero height or width the code divides by zero and
  gets \<open>NaN\<close> or an infinity, which the reals do not have (the quotient is \<open>0\<close> here);
  \<open>isValid\<close> is false of \<open>NaN\<close>.
\<close>

definition isValid :: "nat \<Rightarrow> int \<Rightarrow> int \<Rightarrow> bool" where
  "isValid n x y \<longleftrightarrow> x \<ge> 0 \<and> x < int n \<and> y \<ge> 0 \<and> y < int n"

definition latLngToGrid :: "bounds \<Rightarrow> nat \<Rightarrow> latlng \<Rightarrow> node" where
  "latLngToGrid b n p =
     (let latRange = maxLat b - minLat b;
          lngRange = maxLng b - minLng b;
          y = \<lfloor>((lat p - minLat b) / latRange) * real n\<rfloor>;
          x = \<lfloor>((lng p - minLng b) / lngRange) * real n\<rfloor>
      in (max 0 (min x (int n - 1)), max 0 (min y (int n - 1))))"

definition gridToLatLng :: "bounds \<Rightarrow> nat \<Rightarrow> node \<Rightarrow> latlng" where
  "gridToLatLng b n nd =
     (let latStep = (maxLat b - minLat b) / real n;
          lngStep = (maxLng b - minLng b) / real n
      in \<lparr> lat = minLat b + (real_of_int (snd nd) + 0.5) * latStep,
           lng = minLng b + (real_of_int (fst nd) + 0.5) * lngStep \<rparr>)"

section \<open>Weather system\<close>

text \<open>
  A weather pattern is the object that \<open>generatePatterns\<close> pushes; its position fields
  \<open>x\<close>, \<open>y\<close> are \<open>px\<close>, \<open>py\<close> here and its \<open>type\<close> is \<open>ptype\<close>. The fields
  of \<open>WeatherSystem\<close> that \<open>Pathfinder\<close> has too carry the prefix \<open>w_\<close>.
  \<open>null\<close> is \<open>None\<close>: a cell of \<open>weatherGrid\<close> before the first \<open>updateGrid\<close>, and
  \<open>bounds\<close> before \<open>init\<close>.
\<close>

record pattern =
  px :: real
  py :: real
  radius :: real
  ptype :: string
  intensity :: real
  driftX :: real
  driftY :: real

record weather_cell =
  wind :: real
  rain :: real
  visibility :: real
  risk :: real

record weather_system =
  w_gridSize :: nat
  weatherGrid :: "weather_cell option list list"
  w_bounds :: "bounds option"
  patterns :: "pattern list"
  timeOffset :: real

text \<open>The body of the \<open>forEach\<close> in \<open>update\<close>: drift, then the four wrap tests in order.\<close>

definition movePattern :: "nat \<Rightarrow> real \<Rightarrow> pattern \<Rightarrow> pattern" where
  "movePattern n deltaTime p =
     (let p1 = p\<lparr>px := px p + driftX p * deltaTime\<rparr>;
          p2 = p1\<lparr>py := py p1 + driftY p1 * deltaTime\<rparr>;
          p3 = (if px p2 < 0 then p2\<lparr>px := px p2 + real n\<rparr> else p2);
          p4 = (if px p3 \<ge> real n then p3\<lparr>px := px p3 - real n\<rparr> else p3);
          p5 = (if py p4 < 0 then p4\<lparr>py := py p4 + real n\<rparr> else p4);
          p6 = (if py p5 \<ge> real n then p5\<lparr>py := py p5 - real n\<rparr> else p5)
      in p6)"

text \<open>
  The body of the \<open>forEach\<close> in \<open>updateGrid\<close>, on the running triple
  \<open>(wind, rain, visibility)\<close> of the cell \<open>(x, y)\<close>.
\<close>

definition accumulate :: "nat \<Rightarrow> nat \<Rightarrow> pattern \<Rightarrow> real \<times> real \<times> real \<Rightarrow> real \<times> real \<times> real" where
  "accumulate x y p = (\<lambda>(w, r, v).
     (let dist = sqrt ((real x - px p)\<^sup>2 + (real y - py p)\<^sup>2)
      in if dist < radius p then
           (let falloff = 1 - dist / radius p;
                power = falloff * intensity p
            in if ptype p = ''STORM'' then (w + power * 60, r + power * 40, v - power * 80)
               else if ptype p = ''WIND'' then (w + power * 80, r, v - power * 20)
               else (w, r, v))
         else (w, r, v)))"

text \<open>
  One cell of \<open>updateGrid\<close>. \<open>rnd\<close> is the value that \<open>Math.random()\<close> returns for this
  cell.
\<close>

definition computeCell :: "pattern list \<Rightarrow> real \<Rightarrow> nat \<Rightarrow> nat \<Rightarrow> weather_cell" where
  "computeCell ps rnd x y =
     (case fold (accumulate x y) ps (0, 0, 100) of (w0, r0, v0) \<Rightarrow>
        (let w = min 100 (max 0 (w0 + rnd * 5));
             r = min 50 (max 0 r0);
             v = min 100 (max 0 v0);
             k = 0 + max 0 ((w - 20) * 1.5) + max 0 ((r - 10) * 2) + max 0 ((80 - v) * 1.5)
         in \<lparr> wind = w, rain = r, visibility = v, risk = min 100 k \<rparr>))"

text \<open>
  \<open>updateGrid\<close> assigns \<open>this.weatherGrid[y][x]\<close> in place, row by row. \<open>noise x y\<close> is
  the random draw of cell \<open>(x, y)\<close> in this recomputation.
\<close>

definition updateGrid :: "(nat \<Rightarrow> nat \<Rightarrow> real) \<Rightarrow> weather_system \<Rightarrow> weather_system" where
  "updateGrid noise ws =
     ws\<lparr>weatherGrid :=
          fold (\<lambda>y g. fold (\<lambda>x g. g[y := (g ! y)[x := Some (computeCell (patterns ws) (noise x y) x y)]])
                          [0..<w_gridSize ws] g)
               [0..<w_gridSize ws] (weatherGrid ws)\<rparr>"

definition update :: "(nat \<Rightarrow> nat \<Rightarrow> real) \<Rightarrow> real \<Rightarrow> weather_system \<Rightarrow> weather_system" where
  "update noise deltaTime ws =
     updateGrid noise
       (ws\<lparr>timeOffset := timeOffset ws + deltaTime,
           patterns := map (movePattern (w_gridSize ws) deltaTime) (patterns ws)\<rparr>)"

definition getWeatherAt :: "weather_system \<Rightarrow> latlng \<Rightarrow> weather_cell option" where
  "getWeatherAt ws p =
     (case w_bounds ws of
        None \<Rightarrow> None
      | Some b \<Rightarrow>
          (case latLngToGrid b (w_gridSize ws) p of (gx, gy) \<Rightarrow>
             if isValid (w_gridSize ws) gx gy then weatherGrid ws ! nat gy ! nat gx
             else Some \<lparr> wind = 0, rain = 0, visibility = 100, risk = 0 \<rparr>))"

text \<open>\<open>WeatherSystem.getRisk\<close>.\<close>

definition w_getRisk :: "weather_system \<Rightarrow> latlng \<Rightarrow> real" where
  "w_getRisk ws p = (case getWeatherAt ws p of None \<Rightarrow> 0 | Some w \<Rightarrow> risk w)"

section \<open>Terrain grid\<close>

text \<open>
  The record is a \<open>Pathfinder\<close> after \<open>initGrid\<close>: \<open>pf_bounds\<close> is the object that
  \<open>initGrid\<close> stores (before it \<open>this.bounds\<close> is \<open>null\<close> and every method below throws).
  \<open>grid ! y ! x\<close> is \<open>this.grid[y][x]\<close>; the code reads it only at coordinates that passed
  \<open>isValid\<close> or come from a loop below \<open>gridSize\<close>, which lie inside a grid of
  \<open>gridSize\<close> rows of \<open>gridSize\<close> cells (\<open>wf_grid\<close>).
\<close>

record pathfinder =
  gridSize :: nat
  grid :: "real list list"
  pf_bounds :: bounds
  weatherSystem :: "weather_system option"

definition wf_grid :: "nat \<Rightarrow> 'a list list \<Rightarrow> bool" where
  "wf_grid n g \<longleftrightarrow> length g = n \<and> list_all (\<lambda>row. length row = n) g"

definition initGrid :: "bounds \<Rightarrow> pathfinder \<Rightarrow> pathfinder" where
  "initGrid b pf = pf\<lparr>pf_bounds := b, grid := replicate (gridSize pf) (replicate (gridSize pf) 10)\<rparr>"

definition directions :: "(int \<times> int) list" where
  "directions = [(0, -1), (0, 1), (-1, 0), (1, 0), (-1, -1), (1, -1), (-1, 1), (1, 1)]"

definition getNeighbors :: "nat \<Rightarrow> int \<Rightarrow> int \<Rightarrow> node list" where
  "getNeighbors n x y =
     concat (map (\<lambda>(dx, dy). if isValid n (x + dx) (y + dy) then [(x + dx, y + dy)] else [])
                 directions)"

text \<open>
  The loop of \<open>isPointInPolygon\<close> runs \<open>i\<close> over the vertices with \<open>j\<close> the previous
  value of \<open>i\<close>, starting at the last vertex; the state is \<open>(j, inside)\<close>.
\<close>

definition isPointInPolygon :: "latlng \<Rightarrow> latlng list \<Rightarrow> bool" where
  "isPointInPolygon point vs =
     (let x = lat point; y = lng point
      in snd (fold (\<lambda>i (j, inside).
                 (let xi = lat (vs ! i); yi = lng (vs ! i);
                      xj = lat (vs ! j); yj = lng (vs ! j);
                      intersect = (((yi > y) \<noteq> (yj > y)) \<and>
                                   (x < (xj - xi) * (y - yi) / (yj - yi) + xi))
                  in (i, if intersect then \<not> inside else inside)))
               [0..<length vs] (length vs - 1, False)))"

text \<open>The body of the iteration over \<open>y\<close> and \<open>x\<close> in step 1 of \<open>markObstacles\<close>.\<close>

definition markCell :: "bounds \<Rightarrow> real \<Rightarrow> real \<Rightarrow> latlng list list \<Rightarrow> nat \<Rightarrow> nat
    \<Rightarrow> real list list \<Rightarrow> real list list" where
  "markCell b latStep lngStep polygons y x g =
     (let centerLat = minLat b + (real y + 0.5) * latStep;
          centerLng = minLng b + (real x + 0.5) * lngStep;
          point = \<lparr> lat = centerLat, lng = centerLng \<rparr>
      in if list_ex (isPointInPolygon point) polygons then g[y := (g ! y)[x := 100]] else g)"

text \<open>The maximum over the neighbours, starting from \<open>0\<close> as the code does.\<close>

definition maxNeighborRisk :: "real list list \<Rightarrow> node list \<Rightarrow> real" where
  "maxNeighborRisk g ns =
     fold (\<lambda>(nx, ny) m. if g ! nat ny ! nat nx > m then g ! nat ny ! nat nx else m) ns 0"

text \<open>
  The body of the iteration of \<open>applyRiskDiffusion\<close>: \<open>old\<close> is \<open>this.grid\<close>, which the
  pass only reads, and \<open>newGrid\<close> is the clone it writes.
\<close>

definition diffuseCell :: "nat \<Rightarrow> real list list \<Rightarrow> nat \<Rightarrow> nat \<Rightarrow> real list list \<Rightarrow> real list list" where
  "diffuseCell n old y x newGrid =
     (if old ! y ! x \<ge> 100 then newGrid
      else
        (let m = maxNeighborRisk old (getNeighbors n (int x) (int y))
         in if m > 15 then
              (let decay = 0.6;
                   diffusedRisk = real_of_int \<lfloor>m * decay\<rfloor>
               in if diffusedRisk > newGrid ! y ! x
                  then newGrid[y := (newGrid ! y)[x := diffusedRisk]]
                  else newGrid)
            else newGrid))"

definition applyRiskDiffusion :: "pathfinder \<Rightarrow> pathfinder" where
  "applyRiskDiffusion pf =
     pf\<lparr>grid := fold (\<lambda>y g. fold (diffuseCell (gridSize pf) (grid pf) y) [0..<gridSize pf] g)
                     [0..<gridSize pf] (grid pf)\<rparr>"

definition markObstacles :: "latlng list list \<Rightarrow> pathfinder \<Rightarrow> pathfinder" where
  "markObstacles polygons pf =
     (let pf1 = pf\<lparr>grid := replicate (gridSize pf) (replicate (gridSize pf) 10)\<rparr>;
          latStep = (maxLat (pf_bounds pf1) - minLat (pf_bounds pf1)) / real (gridSize pf1);
          lngStep = (maxLng (pf_bounds pf1) - minLng (pf_bounds pf1)) / real (gridSize pf1);
          pf2 = pf1\<lparr>grid :=
                  fold (\<lambda>y g. fold (markCell (pf_bounds pf1) latStep lngStep polygons y)
                                    [0..<gridSize pf1] g)
                       [0..<gridSize pf1] (grid pf1)\<rparr>
      in applyRiskDiffusion (applyRiskDiffusion pf2))"

text \<open>\<open>Pathfinder.getRisk\<close>: the terrain risk at the point, raised to the weather risk.\<close>

definition getRisk :: "pathfinder \<Rightarrow> latlng \<Rightarrow> real" where
  "getRisk pf p =
     (case latLngToGrid (pf_bounds pf) (gridSize pf) p of (gx, gy) \<Rightarrow>
        (let r0 = (if isValid (gridSize pf) gx gy then grid pf ! nat gy ! nat gx else 0);
             r1 = (case weatherSystem pf of
                     None \<Rightarrow> r0
                   | Some ws \<Rightarrow> max r0 (w_getRisk ws p))
         in min 100 r1))"

section \<open>Route planner\<close>

text \<open>
  The state of one \<open>findPath\<close> call. The maps are keyed by the string \<open>`${x},${y}`\<close> in
  the code, which names a cell with integer coordinates uniquely, and by the cell here.
  An entry of \<open>openSet\<close> is the cell with the \<open>f\<close> it was pushed with; \<open>cameFrom\<close> maps
  a cell to the cell it was reached from. \<open>closedSet\<close> is a JavaScript \<open>Set\<close>, which
  keeps its elements in insertion order: a list without repetition.
\<close>

record search =
  openSet :: "(node \<times> real) list"
  cameFrom :: "node \<rightharpoonup> node"
  gScore :: "node \<rightharpoonup> real"
  fScore :: "node \<rightharpoonup> real"
  closedSet :: "node list"

definition heuristic :: "node \<Rightarrow> node \<Rightarrow> real" where
  "heuristic a b = sqrt ((real_of_int (fst a - fst b))\<^sup>2 + (real_of_int (snd a - snd b))\<^sup>2)"

text \<open>\<open>Set.add\<close>.\<close>

definition setAdd :: "'a \<Rightarrow> 'a list \<Rightarrow> 'a list" where
  "setAdd k ks = (if k \<in> set ks then ks else ks @ [k])"

text \<open>The constants \<open>riskWeight\<close>, \<open>distCost\<close> and \<open>riskCost\<close> of \<open>findPath\<close>.\<close>

definition riskWeight :: "real \<Rightarrow> real" where
  "riskWeight userRiskTolerance = max 0 ((100 - userRiskTolerance) / 2)"

definition distCost :: "node \<Rightarrow> node \<Rightarrow> real" where
  "distCost current neighbor =
     sqrt ((real_of_int (fst neighbor - fst current))\<^sup>2 + (real_of_int (snd neighbor - snd current))\<^sup>2)"

definition riskCost :: "real \<Rightarrow> real \<Rightarrow> real" where
  "riskCost riskValue rw = (riskValue * rw) / 10"

text \<open>
  The body of \<open>for (let neighbor of neighbors)\<close>. \<open>g\<close> is \<open>gScore.get(currentKey)\<close>,
  which the body never changes (a cell is not its own neighbour).
\<close>

definition relax :: "pathfinder \<Rightarrow> real \<Rightarrow> node \<Rightarrow> node \<Rightarrow> real \<Rightarrow> node \<Rightarrow> search \<Rightarrow> search" where
  "relax pf rw endNode current g neighbor s =
     (if neighbor \<in> set (closedSet s) then s
      else
        (let riskValue = grid pf ! nat (snd neighbor) ! nat (fst neighbor)
         in if riskValue \<ge> 100 then s
            else
              (let tentative_gScore = g + distCost current neighbor + riskCost riskValue rw
               in if (case gScore s neighbor of None \<Rightarrow> True | Some old \<Rightarrow> tentative_gScore < old)
                  then
                    (let f = tentative_gScore + heuristic neighbor endNode;
                         s1 = s\<lparr>cameFrom := (cameFrom s)(neighbor \<mapsto> current),
                                gScore := (gScore s)(neighbor \<mapsto> tentative_gScore),
                                fScore := (fScore s)(neighbor \<mapsto> f)\<rparr>
                     in if find (\<lambda>n. fst n = neighbor) (openSet s1) = None
                        then s1\<lparr>openSet := openSet s1 @ [(neighbor, f)]\<rparr>
                        else s1)
                  else s)))"

text \<open>
  One round of the \<open>while\<close> loop after the goal test: \<open>current\<close> has been shifted off
  the sorted frontier, leaving \<open>rest\<close>; it is closed and its neighbours are relaxed.
\<close>

definition expand :: "pathfinder \<Rightarrow> real \<Rightarrow> node \<Rightarrow> node \<Rightarrow> real \<Rightarrow> (node \<times> real) list \<Rightarrow> search \<Rightarrow> search" where
  "expand pf rw endNode current g rest s =
     fold (relax pf rw endNode current g)
          (getNeighbors (gridSize pf) (fst current) (snd current))
          (s\<lparr>openSet := rest, closedSet := setAdd current (closedSet s)\<rparr>)"

text \<open>
  How the \<open>while\<close> loop ends: with the goal shifted off the frontier, with the frontier
  empty, or, in the model only, by reading a \<open>gScore\<close> that was never set (the code
  would compute with \<open>undefined\<close>; \<open>astar_loop_outcome\<close> shows that a search started by
  \<open>findPath\<close> never does).
\<close>

datatype outcome = Found "node \<rightharpoonup> node" node | Exhausted | NoScore

function astar_loop :: "pathfinder \<Rightarrow> real \<Rightarrow> node \<Rightarrow> search \<Rightarrow> outcome" where
  "astar_loop pf rw endNode s =
     (case sort_key snd (openSet s) of
        [] \<Rightarrow> Exhausted
      | current # rest \<Rightarrow>
          if fst current = endNode then Found (cameFrom s) (fst current)
          else (case gScore s (fst current) of
                  None \<Rightarrow> NoScore
                | Some g \<Rightarrow> astar_loop pf rw endNode (expand pf rw endNode (fst current) g rest s)))"
  by pat_completeness auto

text \<open>
  \<open>reconstructPath\<close> follows \<open>cameFrom\<close> back from the goal, for as long as the current
  cell has an entry: \<open>None\<close> is a loop that never ends.
\<close>

partial_function (option) reconstruct_loop :: "(node \<rightharpoonup> node) \<Rightarrow> node \<Rightarrow> node list \<Rightarrow> node list option" where
  "reconstruct_loop cf key totalPath =
     (case cf key of
        None \<Rightarrow> Some totalPath
      | Some current \<Rightarrow> reconstruct_loop cf current (current # totalPath))"

definition reconstructPath :: "pathfinder \<Rightarrow> (node \<rightharpoonup> node) \<Rightarrow> node \<Rightarrow> latlng list option" where
  "reconstructPath pf cf current =
     map_option (map (gridToLatLng (pf_bounds pf) (gridSize pf))) (reconstruct_loop cf current [current])"

text \<open>The state in which \<open>findPath\<close> enters the loop.\<close>

definition initial :: "node \<Rightarrow> node \<Rightarrow> search" where
  "initial startNode endNode =
     \<lparr> openSet = [(startNode, heuristic startNode endNode)],
       cameFrom = Map.empty,
       gScore = [startNode \<mapsto> 0],
       fScore = [startNode \<mapsto> heuristic startNode endNode],
       closedSet = [] \<rparr>"

text \<open>
  \<open>findPath\<close> after its bounds test, on the start and end cells. The result \<open>None\<close>
  stands for a call that returns nothing (\<open>findPath_returns\<close> shows there is none);
  an empty route is \<open>Some []\<close>.
\<close>

definition search :: "pathfinder \<Rightarrow> node \<Rightarrow> node \<Rightarrow> real \<Rightarrow> latlng list option" where
  "search pf startNode endNode userRiskTolerance =
     (case astar_loop pf (riskWeight userRiskTolerance) endNode (initial startNode endNode) of
        Found cf current \<Rightarrow> reconstructPath pf cf current
      | Exhausted \<Rightarrow> Some []
      | NoScore \<Rightarrow> None)"

definition findPath :: "pathfinder \<Rightarrow> latlng \<Rightarrow> latlng \<Rightarrow> real \<Rightarrow> latlng list option" where
  "findPath pf startLatLng endLatLng userRiskTolerance =
     (let startNode = latLngToGrid (pf_bounds pf) (gridSize pf) startLatLng;
          endNode = latLngToGrid (pf_bounds pf) (gridSize pf) endLatLng
      in if \<not> isValid (gridSize pf) (fst startNode) (snd startNode)
            \<or> \<not> isValid (gridSize pf) (fst endNode) (snd endNode)
         then Some []
         else search pf startNode endNode userRiskTolerance)"

section \<open>Mission driver\<close>

text \<open>
  \<open>missionState\<close> of \<open>main.js\<close> without its map layers and its timer handle; the
  record \<open>app\<close> adds the two fields of \<open>state\<close> that the mission functions read and
  write, and the text last passed to \<open>updateStatus\<close>.
\<close>

record mission =
  active :: bool
  paused :: bool
  path :: "latlng list"
  currentIndex :: nat
  progress :: real
  battery :: real
  trailPoints :: "latlng list"

record app =
  missionState :: mission
  calculatedPath :: "latlng list option"
  endPoint :: latlng
  statusText :: string

definition startMission :: "app \<Rightarrow> app" where
  "startMission a =
     (case calculatedPath a of
        None \<Rightarrow> a
      | Some cp \<Rightarrow>
          if length cp < 2 then a
          else a\<lparr>missionState := (missionState a)\<lparr>active := True, paused := False, path := cp,
                     currentIndex := 0, progress := 0, battery := 100, trailPoints := [cp ! 0]\<rparr>,
                 statusText := ''MISSION ACTIVE''\<rparr>)"

definition pauseMission :: "app \<Rightarrow> app" where
  "pauseMission a =
     (if \<not> active (missionState a) then a
      else a\<lparr>missionState := (missionState a)\<lparr>paused := True\<rparr>, statusText := ''PAUSED''\<rparr>)"

definition resumeMission :: "app \<Rightarrow> app" where
  "resumeMission a =
     (if \<not> active (missionState a) then a
      else a\<lparr>missionState := (missionState a)\<lparr>paused := False\<rparr>, statusText := ''MISSION ACTIVE''\<rparr>)"

definition abortMission :: "app \<Rightarrow> app" where
  "abortMission a =
     a\<lparr>missionState := (missionState a)\<lparr>active := False, paused := False\<rparr>, statusText := ''ABORTED''\<rparr>"

definition finishMission :: "app \<Rightarrow> app" where
  "finishMission a =
     a\<lparr>missionState := (missionState a)\<lparr>active := False\<rparr>, statusText := ''MISSION COMPLETE''\<rparr>"

text \<open>The battery check that ends \<open>simulationLoop\<close>.\<close>

definition lowBattery :: "app \<Rightarrow> app" where
  "lowBattery a = (if battery (missionState a) < 20 then a\<lparr>statusText := ''LOW BATTERY''\<rparr> else a)"

text \<open>
  One tick of \<open>simulationLoop\<close>. The second component is the position handed to the
  re-route that the tick schedules with \<open>setTimeout\<close>, if it schedules one.
\<close>

definition simulationLoop :: "pathfinder \<Rightarrow> app \<Rightarrow> app \<times> latlng option" where
  "simulationLoop pf a =
     (if battery (missionState a) \<le> 0 then (abortMission a, None)
      else
        (let m1 = (missionState a)\<lparr>progress := progress (missionState a) + 0.2\<rparr>;
             m2 = (if progress m1 \<ge> 1 then m1\<lparr>progress := 0, currentIndex := currentIndex m1 + 1\<rparr>
                   else m1)
         in if int (currentIndex m2) \<ge> int (length (path m2)) - 1
            then (finishMission (a\<lparr>missionState := m2\<rparr>), None)
            else
              (let currNode = path m2 ! currentIndex m2;
                   nextNode = path m2 ! (currentIndex m2 + 1);
                   currentPos = \<lparr> lat = lat currNode + (lat nextNode - lat currNode) * progress m2,
                                  lng = lng currNode + (lng nextNode - lng currNode) * progress m2 \<rparr>;
                   m3 = m2\<lparr>trailPoints := trailPoints m2 @ [currentPos], battery := battery m2 - 0.5\<rparr>;
                   a3 = a\<lparr>missionState := m3\<rparr>;
                   r = getRisk pf currentPos
               in if r > 60 then
                    (let a4 = a3\<lparr>statusText := ''DANGER: REROUTING''\<rparr>
                     in if active m3 \<and> \<not> paused m3 then (pauseMission a4, Some currentPos)
                        else (lowBattery a4, None))
                  else if r > 30 then (lowBattery (a3\<lparr>statusText := ''WARNING: HIGH RISK ZONE''\<rparr>), None)
                  else (lowBattery (a3\<lparr>statusText := ''MISSION ACTIVE''\<rparr>), None))))"

text \<open>
  The callback of that \<open>setTimeout\<close>: plan from \<open>currentPos\<close> to \<open>state.endPoint\<close> with
  tolerance 10, then \<open>startMission(); resumeMission()\<close> on a non-empty route and
  \<open>abortMission()\<close> on an empty one.
\<close>

definition reroute :: "pathfinder \<Rightarrow> latlng \<Rightarrow> app \<Rightarrow> app option" where
  "reroute pf currentPos a =
     map_option
       (\<lambda>newPath.
          if length newPath > 0 then
            resumeMission (startMission
              (a\<lparr>missionState := (missionState a)\<lparr>path := newPath, currentIndex := 0, progress := 0\<rparr>,
                 calculatedPath := Some newPath\<rparr>))
          else abortMission a)
       (findPath pf currentPos (endPoint a) 10)"

section \<open>Measures and invariant of the search\<close>

text \<open>
  The cells of the grid; the number of cells (and frontier entries) not yet closed; the
  number of frontier entries that are closed already. Each round of the search lowers
  the pair of the last two.
\<close>

definition cells :: "nat \<Rightarrow> node set" where
  "cells n = {0..<int n} \<times> {0..<int n}"

definition pending :: "pathfinder \<Rightarrow> search \<Rightarrow> nat" where
  "pending pf s = card ((cells (gridSize pf) \<union> fst ` set (openSet s)) - set (closedSet s))"

definition stale :: "search \<Rightarrow> nat" where
  "stale s = length (filter (\<lambda>n. fst n \<in> set (closedSet s)) (openSet s))"

text \<open>
  One round of the \<open>while\<close> loop that goes on to the next: \<open>None\<close> when the loop
  ends in this round.
\<close>

definition astar_step :: "pathfinder \<Rightarrow> real \<Rightarrow> node \<Rightarrow> search \<Rightarrow> search option" where
  "astar_step pf rw endNode s =
     (case sort_key snd (openSet s) of
        [] \<Rightarrow> None
      | current # rest \<Rightarrow>
          if fst current = endNode then None
          else (case gScore s (fst current) of
                  None \<Rightarrow> None
                | Some g \<Rightarrow> Some (expand pf rw endNode (fst current) g rest s)))"

text \<open>\<open>rounds pf rw e s n s'\<close>: the loop started in state \<open>s\<close> is in state \<open>s'\<close> after \<open>n\<close> rounds.\<close>

inductive rounds :: "pathfinder \<Rightarrow> real \<Rightarrow> node \<Rightarrow> search \<Rightarrow> nat \<Rightarrow> search \<Rightarrow> bool"
  for pf rw endNode s where
  rounds_0: "rounds pf rw endNode s 0 s"
| rounds_Suc: "rounds pf rw endNode s n s' \<Longrightarrow> astar_step pf rw endNode s' = Some s''
               \<Longrightarrow> rounds pf rw endNode s (Suc n) s''"

text \<open>
  What holds of every state of the loop: frontier and closed set are disjoint and
  without repetition and lie in the grid, every frontier cell has a \<open>gScore\<close>, every
  \<open>cameFrom\<close> entry leads from an open cell below 100 to a closed neighbour, and from
  a closed cell to a cell closed earlier.
\<close>

definition search_inv :: "pathfinder \<Rightarrow> search \<Rightarrow> bool" where
  "search_inv pf s \<longleftrightarrow>
     distinct (map fst (openSet s))
     \<and> distinct (closedSet s)
     \<and> fst ` set (openSet s) \<inter> set (closedSet s) = {}
     \<and> fst ` set (openSet s) \<subseteq> cells (gridSize pf)
     \<and> set (closedSet s) \<subseteq> cells (gridSize pf)
     \<and> fst ` set (openSet s) \<subseteq> dom (gScore s)
     \<and> (\<forall>k p. cameFrom s k = Some p \<longrightarrow>
           p \<in> set (closedSet s)
           \<and> k \<in> set (getNeighbors (gridSize pf) (fst p) (snd p))
           \<and> grid pf ! nat (snd k) ! nat (fst k) < 100)
     \<and> (\<forall>i < length (closedSet s). \<forall>p. cameFrom s (closedSet s ! i) = Some p \<longrightarrow>
           p \<in> set (take i (closedSet s)))"

section \<open>Routes of cells\<close>

text \<open>
  The claim's words for C4: the length of a route of cells, and a route from \<open>a\<close> to
  \<open>b\<close> that moves between 8-connected neighbours and keeps to cells below 100.
\<close>

fun routeLength :: "node list \<Rightarrow> real" where
  "routeLength (a # b # r) = distCost a b + routeLength (b # r)"
| "routeLength _ = 0"

fun connected8 :: "nat \<Rightarrow> node list \<Rightarrow> bool" where
  "connected8 n (a # b # r) \<longleftrightarrow> b \<in> set (getNeighbors n (fst a) (snd a)) \<and> connected8 n (b # r)"
| "connected8 n _ \<longleftrightarrow> True"

definition isRoute :: "pathfinder \<Rightarrow> node \<Rightarrow> node \<Rightarrow> node list \<Rightarrow> bool" where
  "isRoute pf a b r \<longleftrightarrow>
     r \<noteq> [] \<and> hd r = a \<and> last r = b \<and> connected8 (gridSize pf) r
     \<and> list_all (\<lambda>c. isValid (gridSize pf) (fst c) (snd c)
                      \<and> grid pf ! nat (snd c) ! nat (fst c) < 100) r"

section \<open>Example inputs\<close>

text \<open>A storm cell one column from the eastern edge of a grid of 60, drifting east.\<close>

definition gust :: pattern where
  "gust = \<lparr> px = 59, py = 30, radius = 5, ptype = ''STORM'', intensity = 1,
            driftX = 0.05, driftY = 0 \<rparr>"

text \<open>
  A grid of one cell under a storm centred on it, before its first \<open>updateGrid\<close>, and a
  random source that always draws \<open>0.5\<close>.
\<close>

definition evenDraw :: "nat \<Rightarrow> nat \<Rightarrow> real" where
  "evenDraw x y = 0.5"

definition squall :: weather_system where
  "squall = \<lparr> w_gridSize = 1, weatherGrid = [[None]], w_bounds = None,
      patterns = [\<lparr> px = 0, py = 0, radius = 5, ptype = ''STORM'', intensity = 1,
                   driftX = 0.05, driftY = 0 \<rparr>], timeOffset = 0 \<rparr>"

text \<open>A grid of 3 with a blocked cell in the middle of base terrain.\<close>

definition islet :: pathfinder where
  "islet = \<lparr> gridSize = 3, grid = [[10, 10, 10], [10, 100, 10], [10, 10, 10]],
             pf_bounds = \<lparr> minLat = 0, maxLat = 3, minLng = 0, maxLng = 3 \<rparr>,
             weatherSystem = None \<rparr>"

text \<open>Two points of the southern row of that grid, in its western and eastern cells.\<close>

definition southWest :: latlng where
  "southWest = \<lparr> lat = 0.5, lng = 0.5 \<rparr>"

definition southEast :: latlng where
  "southEast = \<lparr> lat = 0.5, lng = 2.5 \<rparr>"

text \<open>
  A grid of 2 over the region from 0 to 2, a square obstacle over its south-western
  cell, and the centres of three of its cells.
\<close>

definition plot :: pathfinder where
  "plot = \<lparr> gridSize = 2, grid = [[10, 10], [10, 10]],
            pf_bounds = \<lparr> minLat = 0, maxLat = 2, minLng = 0, maxLng = 2 \<rparr>,
            weatherSystem = None \<rparr>"


definition nook :: latlng where
  "nook = \<lparr> lat = 0.5, lng = 0.5 \<rparr>"

definition eastSouth :: latlng where
  "eastSouth = \<lparr> lat = 0.5, lng = 1.5 \<rparr>"

definition eastNorth :: latlng where
  "eastNorth = \<lparr> lat = 1.5, lng = 1.5 \<rparr>"

text \<open>A point far outside the region.\<close>

definition farAway :: latlng where
  "farAway = \<lparr> lat = -40, lng = 500 \<rparr>"

text \<open>The plot of 2 under a weather grid whose south-eastern cell holds a gale of risk 75.\<close>

definition gale :: weather_cell where
  "gale = \<lparr> wind = 70, rain = 0, visibility = 100, risk = 75 \<rparr>"

definition still :: weather_cell where
  "still = \<lparr> wind = 0, rain = 0, visibility = 100, risk = 0 \<rparr>"

definition front :: weather_system where
  "front = \<lparr> w_gridSize = 2,
              weatherGrid = [[Some still, Some gale], [Some still, Some still]],
              w_bounds = Some \<lparr> minLat = 0, maxLat = 2, minLng = 0, maxLng = 2 \<rparr>,
              patterns = [], timeOffset = 0 \<rparr>"

definition coast :: pathfinder where
  "coast = plot\<lparr>weatherSystem := Some front\<rparr>"

text \<open>
  A mission over the coast from its south-eastern to its north-western cell, with
  battery 80, and the position of the agent after the first tick.
\<close>

definition westNorth :: latlng where
  "westNorth = \<lparr> lat = 1.5, lng = 0.5 \<rparr>"

definition airborne :: latlng where
  "airborne = \<lparr> lat = 0.7, lng = 1.3 \<rparr>"

definition sortie :: app where
  "sortie = \<lparr> missionState = \<lparr> active = True, paused = False, path = [eastSouth, westNorth],
                               currentIndex = 0, progress = 0, battery = 80,
                               trailPoints = [eastSouth] \<rparr>,
               calculatedPath = Some [eastSouth, westNorth],
               endPoint = westNorth,
               statusText = ''MISSION ACTIVE'' \<rparr>"

text \<open>
  A grid of 5 with obstacle cells at 100 and every other cell, each next to an obstacle,
  at 60; the centres of its cells \<open>(4, 0)\<close> and \<open>(0, 3)\<close>; and the states of the
  search between them after each of its first six rounds at risk weight 0.
\<close>

definition maze :: pathfinder where
  "maze = \<lparr> gridSize = 5,
             grid = [[100, 100, 60, 100, 60],
                     [100, 60, 100, 60, 60],
                     [60, 100, 100, 100, 60],
                     [60, 60, 60, 60, 100],
                     [100, 100, 60, 100, 60]],
             pf_bounds = \<lparr> minLat = 0, maxLat = 5, minLng = 0, maxLng = 5 \<rparr>,
             weatherSystem = None \<rparr>"

definition harbour :: latlng where
  "harbour = \<lparr> lat = 0.5, lng = 4.5 \<rparr>"

definition beacon :: latlng where
  "beacon = \<lparr> lat = 3.5, lng = 0.5 \<rparr>"

definition maze_round1 :: search where
  "maze_round1 =
     \<lparr> openSet = [((4, 1), 1 + sqrt 20), ((3, 1), sqrt 2 + sqrt 13)],
       cameFrom = [(4, 1) \<mapsto> (4, 0), (3, 1) \<mapsto> (4, 0)],
       gScore = [(4, 0) \<mapsto> 0, (4, 1) \<mapsto> 1, (3, 1) \<mapsto> sqrt 2],
       fScore = [(4, 0) \<mapsto> 5, (4, 1) \<mapsto> 1 + sqrt 20,
                  (3, 1) \<mapsto> sqrt 2 + sqrt 13],
       closedSet = [(4, 0)] \<rparr>"

definition maze_round2 :: search where
  "maze_round2 =
     \<lparr> openSet = [((4, 1), 1 + sqrt 20), ((2, 0), 2 * sqrt 2 + sqrt 13),
                   ((4, 2), 2 * sqrt 2 + sqrt 17)],
       cameFrom = [(4, 1) \<mapsto> (4, 0), (3, 1) \<mapsto> (4, 0),
                    (2, 0) \<mapsto> (3, 1), (4, 2) \<mapsto> (3, 1)],
       gScore = [(4, 0) \<mapsto> 0, (4, 1) \<mapsto> 1, (3, 1) \<mapsto> sqrt 2,
                  (2, 0) \<mapsto> 2 * sqrt 2, (4, 2) \<mapsto> 2 * sqrt 2],
       fScore = [(4, 0) \<mapsto> 5, (4, 1) \<mapsto> 1 + sqrt 20,
                  (3, 1) \<mapsto> sqrt 2 + sqrt 13,
                  (2, 0) \<mapsto> 2 * sqrt 2 + sqrt 13,
                  (4, 2) \<mapsto> 2 * sqrt 2 + sqrt 17],
       closedSet = [(4, 0), (3, 1)] \<rparr>"

definition maze_round3 :: search where
  "maze_round3 =
     \<lparr> openSet = [((2, 0), 2 * sqrt 2 + sqrt 13), ((4, 2), 2 * sqrt 2 + sqrt 17)],
       cameFrom = [(4, 1) \<mapsto> (4, 0), (3, 1) \<mapsto> (4, 0),
                    (2, 0) \<mapsto> (3, 1), (4, 2) \<mapsto> (4, 1)],
       gScore = [(4, 0) \<mapsto> 0, (4, 1) \<mapsto> 1, (3, 1) \<mapsto> sqrt 2,
                  (2, 0) \<mapsto> 2 * sqrt 2, (4, 2) \<mapsto> 2],
       fScore = [(4, 0) \<mapsto> 5, (4, 1) \<mapsto> 1 + sqrt 20,
                  (3, 1) \<mapsto> sqrt 2 + sqrt 13,
                  (2, 0) \<mapsto> 2 * sqrt 2 + sqrt 13, (4, 2) \<mapsto> 2 + sqrt 17],
       closedSet = [(4, 0), (3, 1), (4, 1)] \<rparr>"

definition maze_round4 :: search where
  "maze_round4 =
     \<lparr> openSet = [((4, 2), 2 * sqrt 2 + sqrt 17), ((1, 1), 3 * sqrt 2 + sqrt 5)],
       cameFrom = [(4, 1) \<mapsto> (4, 0), (3, 1) \<mapsto> (4, 0),
                    (2, 0) \<mapsto> (3, 1), (4, 2) \<mapsto> (4, 1),
                    (1, 1) \<mapsto> (2, 0)],
       gScore = [(4, 0) \<mapsto> 0, (4, 1) \<mapsto> 1, (3, 1) \<mapsto> sqrt 2,
                  (2, 0) \<mapsto> 2 * sqrt 2, (4, 2) \<mapsto> 2,
                  (1, 1) \<mapsto> 3 * sqrt 2],
       fScore = [(4, 0) \<mapsto> 5, (4, 1) \<mapsto> 1 + sqrt 20,
                  (3, 1) \<mapsto> sqrt 2 + sqrt 13,
                  (2, 0) \<mapsto> 2 * sqrt 2 + sqrt 13, (4, 2) \<mapsto> 2 + sqrt 17,
                  (1, 1) \<mapsto> 3 * sqrt 2 + sqrt 5],
       closedSet = [(4, 0), (3, 1), (4, 1), (2, 0)] \<rparr>"

definition maze_round5 :: search where
  "maze_round5 =
     \<lparr> openSet = [((4, 2), 2 * sqrt 2 + sqrt 17), ((0, 2), 4 * sqrt 2 + 1)],
       cameFrom = [(4, 1) \<mapsto> (4, 0), (3, 1) \<mapsto> (4, 0),
                    (2, 0) \<mapsto> (3, 1), (4, 2) \<mapsto> (4, 1),
                    (1, 1) \<mapsto> (2, 0), (0, 2) \<mapsto> (1, 1)],
       gScore = [(4, 0) \<mapsto> 0, (4, 1) \<mapsto> 1, (3, 1) \<mapsto> sqrt 2,
                  (2, 0) \<mapsto> 2 * sqrt 2, (4, 2) \<mapsto> 2,
                  (1, 1) \<mapsto> 3 * sqrt 2, (0, 2) \<mapsto> 4 * sqrt 2],
       fScore = [(4, 0) \<mapsto> 5, (4, 1) \<mapsto> 1 + sqrt 20,
                  (3, 1) \<mapsto> sqrt 2 + sqrt 13,
                  (2, 0) \<mapsto> 2 * sqrt 2 + sqrt 13, (4, 2) \<mapsto> 2 + sqrt 17,
                  (1, 1) \<mapsto> 3 * sqrt 2 + sqrt 5, (0, 2) \<mapsto> 4 * sqrt 2 + 1],
       closedSet = [(4, 0), (3, 1), (4, 1), (2, 0), (1, 1)] \<rparr>"

definition maze_round6 :: search where
  "maze_round6 =
     \<lparr> openSet = [((4, 2), 2 * sqrt 2 + sqrt 17), ((0, 3), 4 * sqrt 2 + 1),
                   ((1, 3), 5 * sqrt 2 + 1)],
       cameFrom = [(4, 1) \<mapsto> (4, 0), (3, 1) \<mapsto> (4, 0),
                    (2, 0) \<mapsto> (3, 1), (4, 2) \<mapsto> (4, 1),
                    (1, 1) \<mapsto> (2, 0), (0, 2) \<mapsto> (1, 1),
                    (0, 3) \<mapsto> (0, 2), (1, 3) \<mapsto> (0, 2)],
       gScore = [(4, 0) \<mapsto> 0, (4, 1) \<mapsto> 1, (3, 1) \<mapsto> sqrt 2,
                  (2, 0) \<mapsto> 2 * sqrt 2, (4, 2) \<mapsto> 2,
                  (1, 1) \<mapsto> 3 * sqrt 2, (0, 2) \<mapsto> 4 * sqrt 2,
                  (0, 3) \<mapsto> 4 * sqrt 2 + 1, (1, 3) \<mapsto> 5 * sqrt 2],
       fScore = [(4, 0) \<mapsto> 5, (4, 1) \<mapsto> 1 + sqrt 20,
                  (3, 1) \<mapsto> sqrt 2 + sqrt 13,
                  (2, 0) \<mapsto> 2 * sqrt 2 + sqrt 13, (4, 2) \<mapsto> 2 + sqrt 17,
                  (1, 1) \<mapsto> 3 * sqrt 2 + sqrt 5, (0, 2) \<mapsto> 4 * sqrt 2 + 1,
                  (0, 3) \<mapsto> 4 * sqrt 2 + 1, (1, 3) \<mapsto> 5 * sqrt 2 + 1],
       closedSet = [(4, 0), (3, 1), (4, 1), (2, 0), (1, 1), (0, 2)] \<rparr>"

section \<open>Properties of the grid mapping\<close>

lemma floor_half_shift: "\<lfloor>real_of_int k + 0.5\<rfloor> = k"
  by linarith

lemma cell_centre_scaled:
  assumes "lo < hi" and "0 < n"
  shows "((lo + (real_of_int k + 0.5) * ((hi - lo) / real n) - lo) / (hi - lo)) * real n
         = real_of_int k + 0.5"
  using assms by (simp add: field_simps)

lemma cell_roundtrip:
  assumes "isValid n x y" and "minLat b < maxLat b" and "minLng b < maxLng b"
  shows "latLngToGrid b n (gridToLatLng b n (x, y)) = (x, y)"
proof -
  from assms(1) have n: "0 < n" and x: "0 \<le> x" "x \<le> int n - 1" and y: "0 \<le> y" "y \<le> int n - 1"
    by (auto simp: isValid_def)
  have fy: "\<lfloor>((minLat b + (real_of_int y + 0.5) * ((maxLat b - minLat b) / real n) - minLat b)
              / (maxLat b - minLat b)) * real n\<rfloor> = y"
    using cell_centre_scaled [OF assms(2) n, of y] floor_half_shift [of y] by simp
  have fx: "\<lfloor>((minLng b + (real_of_int x + 0.5) * ((maxLng b - minLng b) / real n) - minLng b)
              / (maxLng b - minLng b)) * real n\<rfloor> = x"
    using cell_centre_scaled [OF assms(3) n, of x] floor_half_shift [of x] by simp
  show ?thesis
    unfolding latLngToGrid_def gridToLatLng_def Let_def
    using fx fy x y by simp
qed

text \<open>
  C8. For every cell \<open>(x, y)\<close> with \<open>0 \<le> x, y < N\<close> and every bounding region with
  \<open>minLat < maxLat\<close> and \<open>minLng < maxLng\<close>, mapping the cell to its geographic centre
  with \<open>gridToLatLng\<close> and back with \<open>latLngToGrid\<close> gives the cell \<open>(x, y)\<close> again.
\<close>

theorem grid_roundtrip:
  assumes "isValid n x y" and "minLat b < maxLat b" and "minLng b < maxLng b"
  shows "latLngToGrid b n (gridToLatLng b n (x, y)) = (x, y)"
  using assms by (rule cell_roundtrip)

theorem grid_roundtrip_witness:
  "isValid 60 7 59
   \<and> latLngToGrid \<lparr> minLat = 8, maxLat = 37, minLng = 68, maxLng = 97 \<rparr> 60
        (gridToLatLng \<lparr> minLat = 8, maxLat = 37, minLng = 68, maxLng = 97 \<rparr> 60 (7, 59)) = (7, 59)"
  using grid_roundtrip [of 60 7 59 "\<lparr> minLat = 8, maxLat = 37, minLng = 68, maxLng = 97 \<rparr>"]
  by (simp add: isValid_def)

lemma latLngToGrid_valid:
  assumes "0 < n"
  shows "isValid n (fst (latLngToGrid b n p)) (snd (latLngToGrid b n p))"
proof -
  have "0 \<le> max 0 (min k (int n - 1)) \<and> max 0 (min k (int n - 1)) < int n" for k :: int
    using assms by (simp add: min_def)
  then show ?thesis
    by (simp add: latLngToGrid_def isValid_def Let_def)
qed

section \<open>Nested iteration over the grid\<close>

text \<open>
  \<open>updateGrid\<close>, step 1 of \<open>markObstacles\<close> and \<open>applyRiskDiffusion\<close> all run
  \<open>for y { for x { ... } }\<close> and assign at most the cell \<open>[y][x]\<close> in the body. The
  lemmas give the grid after the whole iteration.
\<close>

lemma inner_loop:
  "fold (\<lambda>x g. g[y := (g ! y)[x := h x (g ! y ! x)]]) [0..<n] g
   = g[y := map (\<lambda>i. if i < n then h i (g ! y ! i) else g ! y ! i) [0..<length (g ! y)]]"
proof (cases "y < length g")
  case False
  then have "fold (\<lambda>x g. g[y := (g ! y)[x := h x (g ! y ! x)]]) xs g = g" for xs
    by (induction xs) (simp_all add: not_less list_update_beyond)
  with False show ?thesis by (simp add: not_less list_update_beyond)
next
  case True
  show ?thesis
  proof (induction n)
    case 0
    show ?case by (simp add: map_nth)
  next
    case (Suc n)
    let ?r = "map (\<lambda>i. if i < n then h i (g ! y ! i) else g ! y ! i) [0..<length (g ! y)]"
    have "fold (\<lambda>x g. g[y := (g ! y)[x := h x (g ! y ! x)]]) [0..<Suc n] g
          = (g[y := ?r])[y := ((g[y := ?r]) ! y)[n := h n ((g[y := ?r]) ! y ! n)]]"
      using Suc by simp
    also have "\<dots> = g[y := ?r[n := h n (?r ! n)]]"
      using True by simp
    also have "?r[n := h n (?r ! n)]
          = map (\<lambda>i. if i < Suc n then h i (g ! y ! i) else g ! y ! i) [0..<length (g ! y)]"
      by (rule nth_equalityI) (auto simp: nth_list_update less_Suc_eq)
    finally show ?case .
  qed
qed

lemma outer_loop:
  "fold (\<lambda>y g. g[y := r y (g ! y)]) [0..<m] g
   = map (\<lambda>j. if j < m then r j (g ! j) else g ! j) [0..<length g]"
proof (induction m)
  case 0
  show ?case by (simp add: map_nth)
next
  case (Suc m)
  let ?g = "map (\<lambda>j. if j < m then r j (g ! j) else g ! j) [0..<length g]"
  have "fold (\<lambda>y g. g[y := r y (g ! y)]) [0..<Suc m] g = ?g[m := r m (?g ! m)]"
    using Suc by simp
  also have "\<dots> = map (\<lambda>j. if j < Suc m then r j (g ! j) else g ! j) [0..<length g]"
    by (rule nth_equalityI) (auto simp: nth_list_update less_Suc_eq)
  finally show ?case .
qed

text \<open>The whole iteration on a square grid, for a cell update that may read the cell.\<close>

lemma grid_loop_eq:
  "fold (\<lambda>y g. fold (\<lambda>x g. g[y := (g ! y)[x := h y x (g ! y ! x)]]) [0..<n] g) [0..<m] g
   = map (\<lambda>j. if j < m then map (\<lambda>i. if i < n then h j i (g ! j ! i) else g ! j ! i) [0..<length (g ! j)]
               else g ! j) [0..<length g]"
  unfolding inner_loop
  by (rule outer_loop
      [of "\<lambda>j r. map (\<lambda>i. if i < n then h j i (r ! i) else r ! i) [0..<length r]"])

lemma grid_loop_nth:
  assumes wf: "wf_grid n g" and x: "x < n" and y: "y < n"
  shows "fold (\<lambda>y g. fold (\<lambda>x g. g[y := (g ! y)[x := h y x (g ! y ! x)]]) [0..<n] g) [0..<n] g ! y ! x
         = h y x (g ! y ! x)"
proof -
  have len: "length g = n" and rows: "length (g ! y) = n"
    using wf y by (auto simp: wf_grid_def list_all_length)
  show ?thesis
    unfolding grid_loop_eq using len rows x y by simp
qed


section \<open>Properties of the weather system\<close>

lemma updateGrid_cell:
  assumes "wf_grid (w_gridSize ws) (weatherGrid ws)" and "x < w_gridSize ws" and "y < w_gridSize ws"
  shows "weatherGrid (updateGrid noise ws) ! y ! x
         = Some (computeCell (patterns ws) (noise x y) x y)"
  unfolding updateGrid_def
  using grid_loop_nth [OF assms, of "\<lambda>y x old. Some (computeCell (patterns ws) (noise x y) x y)"]
  by simp

lemma computeCell_ranges:
  fixes c :: weather_cell
  assumes "c = computeCell ps rnd x y"
  shows "0 \<le> wind c \<and> wind c \<le> 100" and "0 \<le> rain c \<and> rain c \<le> 50"
    and "0 \<le> visibility c \<and> visibility c \<le> 100" and "0 \<le> risk c \<and> risk c \<le> 100"
    and "risk c = min 100 (1.5 * max 0 (wind c - 20) + 2 * max 0 (rain c - 10)
                            + 1.5 * max 0 (80 - visibility c))"
proof -
  obtain w0 r0 v0 where t: "fold (accumulate x y) ps (0, 0, 100) = (w0, r0, v0)"
    by (cases "fold (accumulate x y) ps (0, 0, 100)") auto
  have c: "c = \<lparr> wind = min 100 (max 0 (w0 + rnd * 5)), rain = min 50 (max 0 r0),
                 visibility = min 100 (max 0 v0),
                 risk = min 100 (0 + max 0 ((min 100 (max 0 (w0 + rnd * 5)) - 20) * 1.5)
                                   + max 0 ((min 50 (max 0 r0) - 10) * 2)
                                   + max 0 ((80 - min 100 (max 0 v0)) * 1.5)) \<rparr>"
    unfolding assms computeCell_def t Let_def prod.case ..
  have w: "wind c = min 100 (max 0 (w0 + rnd * 5))" and r: "rain c = min 50 (max 0 r0)"
    and v: "visibility c = min 100 (max 0 v0)"
    by (simp_all only: c weather_cell.select_convs)
  have k: "risk c = min 100 (0 + max 0 ((wind c - 20) * 1.5) + max 0 ((rain c - 10) * 2)
                              + max 0 ((80 - visibility c) * 1.5))"
    by (simp only: c weather_cell.select_convs)
  show "0 \<le> wind c \<and> wind c \<le> 100" unfolding w by simp
  show "0 \<le> rain c \<and> rain c \<le> 50" unfolding r by simp
  show "0 \<le> visibility c \<and> visibility c \<le> 100" unfolding v by simp
  show "0 \<le> risk c \<and> risk c \<le> 100" unfolding k by simp
  have e1: "0 + max 0 ((wind c - 20) * 1.5) = 1.5 * max 0 (wind c - 20)"
    by (simp add: max_def)
  have e2: "max 0 ((rain c - 10) * 2) = 2 * max 0 (rain c - 10)"
    by (simp add: max_def)
  have e3: "max 0 ((80 - visibility c) * 1.5) = 1.5 * max 0 (80 - visibility c)"
    by (simp add: max_def)
  show "risk c = min 100 (1.5 * max 0 (wind c - 20) + 2 * max 0 (rain c - 10)
                            + 1.5 * max 0 (80 - visibility c))"
    by (subst k) (simp only: e1 e2 e3)
qed

text \<open>
  C7. After \<open>updateGrid\<close>, every cell of the grid holds a sample with wind in \<open>[0, 100]\<close>,
  rain in \<open>[0, 50]\<close>, visibility in \<open>[0, 100]\<close> and risk in \<open>[0, 100]\<close>, and the
  stored risk is \<open>min 100 (1.5 * max 0 (wind - 20) + 2 * max 0 (rain - 10) +
  1.5 * max 0 (80 - visibility))\<close> of the clamped values stored in that cell, whatever
  the random draws are.
\<close>

theorem updateGrid_cells_clamped:
  assumes "wf_grid (w_gridSize ws) (weatherGrid ws)" and "x < w_gridSize ws" and "y < w_gridSize ws"
  shows "\<exists>c. weatherGrid (updateGrid noise ws) ! y ! x = Some c
           \<and> 0 \<le> wind c \<and> wind c \<le> 100
           \<and> 0 \<le> rain c \<and> rain c \<le> 50
           \<and> 0 \<le> visibility c \<and> visibility c \<le> 100
           \<and> 0 \<le> risk c \<and> risk c \<le> 100
           \<and> risk c = min 100 (1.5 * max 0 (wind c - 20) + 2 * max 0 (rain c - 10)
                                + 1.5 * max 0 (80 - visibility c))"
  using updateGrid_cell [OF assms, of noise]
    computeCell_ranges [OF refl, of "patterns ws" "noise x y" x y]
  by simp

lemma squall_cell:
  "weatherGrid (updateGrid evenDraw squall)
   = [[Some \<lparr> wind = 62.5, rain = 40, visibility = 20, risk = 100 \<rparr>]]"
  by (simp add: updateGrid_def squall_def evenDraw_def computeCell_def accumulate_def Let_def)

theorem updateGrid_cells_clamped_witness:
  "wf_grid (w_gridSize squall) (weatherGrid squall) \<and> 0 < w_gridSize squall
   \<and> weatherGrid (updateGrid evenDraw squall) ! 0 ! 0
       = Some \<lparr> wind = 62.5, rain = 40, visibility = 20, risk = 100 \<rparr>
   \<and> (\<exists>c. weatherGrid (updateGrid evenDraw squall) ! 0 ! 0 = Some c
           \<and> 0 \<le> wind c \<and> wind c \<le> 100
           \<and> 0 \<le> rain c \<and> rain c \<le> 50
           \<and> 0 \<le> visibility c \<and> visibility c \<le> 100
           \<and> 0 \<le> risk c \<and> risk c \<le> 100
           \<and> risk c = min 100 (1.5 * max 0 (wind c - 20) + 2 * max 0 (rain c - 10)
                                + 1.5 * max 0 (80 - visibility c)))"
proof -
  have wf: "wf_grid (w_gridSize squall) (weatherGrid squall)" and pos: "0 < w_gridSize squall"
    by (simp_all add: squall_def wf_grid_def)
  show ?thesis
    using wf pos updateGrid_cells_clamped [OF wf pos pos, of evenDraw] squall_cell by simp
qed

lemma movePattern_px:
  "px (movePattern n dt p) =
     (let a = px p + driftX p * dt; b = (if a < 0 then a + real n else a)
      in if b \<ge> real n then b - real n else b)"
  by (simp add: movePattern_def Let_def)

lemma movePattern_py:
  "py (movePattern n dt p) =
     (let a = py p + driftY p * dt; b = (if a < 0 then a + real n else a)
      in if b \<ge> real n then b - real n else b)"
  by (simp add: movePattern_def Let_def)

lemma updateGrid_patterns: "patterns (updateGrid noise ws) = patterns ws"
  by (simp add: updateGrid_def)

lemma update_patterns:
  "patterns (update noise dt ws) = map (movePattern (w_gridSize ws) dt) (patterns ws)"
  by (simp add: update_def updateGrid_patterns)

lemma wrap_once:
  fixes c d n :: real
  assumes "0 \<le> c" "c < n" "\<bar>d\<bar> \<le> n"
  shows "0 \<le> (let a = c + d; b = (if a < 0 then a + n else a) in if b \<ge> n then b - n else b)"
    and "(let a = c + d; b = (if a < 0 then a + n else a) in if b \<ge> n then b - n else b) < n"
  using assms by (auto simp: Let_def)

lemma wrap_shift:
  fixes a n :: real
  shows "(let b = (if a < 0 then a + n else a) in if b \<ge> n then b - n else b) - a \<in> {0, n, - n}"
  by (simp add: Let_def)

text \<open>
  C6, as the code has it. \<open>update\<close> moves every system by \<open>drift * dt\<close> and wraps each
  coordinate at most once. A system that is inside \<open>[0, gridSize)\<close> before the call and
  whose displacement \<open>drift * dt\<close> is at most \<open>gridSize\<close> in absolute value on each axis
  is inside \<open>[0, gridSize)\<close> after it; its new coordinate differs from
  \<open>old + drift * dt\<close> by \<open>0\<close>, \<open>gridSize\<close> or \<open>- gridSize\<close>; and a system whose
  \<open>x + driftX * dt\<close> reaches \<open>gridSize\<close> re-enters at \<open>x + driftX * dt - gridSize\<close>.
\<close>

theorem update_wraps_once:
  assumes "p \<in> set (patterns ws)" and "q = movePattern (w_gridSize ws) dt p"
    and "0 \<le> px p" "px p < real (w_gridSize ws)" "0 \<le> py p" "py p < real (w_gridSize ws)"
    and "\<bar>driftX p * dt\<bar> \<le> real (w_gridSize ws)" "\<bar>driftY p * dt\<bar> \<le> real (w_gridSize ws)"
  shows "q \<in> set (patterns (update noise dt ws))
       \<and> 0 \<le> px q \<and> px q < real (w_gridSize ws)
       \<and> 0 \<le> py q \<and> py q < real (w_gridSize ws)
       \<and> px q - (px p + driftX p * dt) \<in> {0, real (w_gridSize ws), - real (w_gridSize ws)}
       \<and> py q - (py p + driftY p * dt) \<in> {0, real (w_gridSize ws), - real (w_gridSize ws)}
       \<and> (px p + driftX p * dt \<ge> real (w_gridSize ws) \<longrightarrow>
            px q = px p + driftX p * dt - real (w_gridSize ws))"
proof -
  let ?n = "real (w_gridSize ws)"
  have mem: "q \<in> set (patterns (update noise dt ws))"
    using assms(1,2) by (simp add: update_patterns)
  have x: "0 \<le> px q" "px q < ?n"
    using wrap_once [OF assms(3,4,7)] by (simp_all add: assms(2) movePattern_px)
  have y: "0 \<le> py q" "py q < ?n"
    using wrap_once [OF assms(5,6,8)] by (simp_all add: assms(2) movePattern_py)
  have dx: "px q - (px p + driftX p * dt) \<in> {0, ?n, - ?n}"
    using wrap_shift [of "px p + driftX p * dt" ?n] by (simp add: assms(2) movePattern_px Let_def)
  have dy: "py q - (py p + driftY p * dt) \<in> {0, ?n, - ?n}"
    using wrap_shift [of "py p + driftY p * dt" ?n] by (simp add: assms(2) movePattern_py Let_def)
  have re: "px p + driftX p * dt \<ge> ?n \<longrightarrow> px q = px p + driftX p * dt - ?n"
    using assms(3,4) by (simp add: assms(2) movePattern_px Let_def)
  from mem x y dx dy re show ?thesis by blast
qed

theorem update_wraps_once_witness:
  "gust \<in> set (patterns \<lparr> w_gridSize = 60, weatherGrid = replicate 60 (replicate 60 None), w_bounds = None,
                            patterns = [gust], timeOffset = 0 \<rparr>)
   \<and> 0 \<le> px gust \<and> px gust < real 60 \<and> \<bar>driftX gust * 100\<bar> \<le> real 60
   \<and> px (movePattern 60 100 gust) = 4
   \<and> 0 \<le> px (movePattern 60 100 gust) \<and> px (movePattern 60 100 gust) < real 60"
  using update_wraps_once [of gust "\<lparr> w_gridSize = 60, weatherGrid = replicate 60 (replicate 60 None), w_bounds = None,
                            patterns = [gust], timeOffset = 0 \<rparr>" "movePattern 60 100 gust" 100]
  by (simp add: gust_def movePattern_px Let_def)

text \<open>
  C6 as stated fails for a long tick: the system at \<open>x = 59\<close> with drift \<open>0.05\<close> is at
  \<open>x = 119\<close>, outside the grid of 60, after \<open>update(2400)\<close>.
\<close>

theorem update_wrap_counterexample:
  "px (movePattern 60 2400 gust) = 119 \<and> \<not> px (movePattern 60 2400 gust) < real 60"
  by (simp add: movePattern_px gust_def Let_def)

section \<open>Properties of the terrain grid\<close>

lemma in_getNeighbors:
  "c \<in> set (getNeighbors n x y) \<longleftrightarrow>
     (\<exists>d \<in> set directions. c = (x + fst d, y + snd d) \<and> isValid n (x + fst d) (y + snd d))"
  unfolding getNeighbors_def by (force split: if_splits)

lemma unit_step: "\<bar>k\<bar> \<le> 1 \<longleftrightarrow> k = -1 \<or> k = 0 \<or> k = (1::int)"
  by arith

lemma in_directions:
  "d \<in> set directions \<longleftrightarrow> d \<noteq> (0, 0) \<and> \<bar>fst d\<bar> \<le> 1 \<and> \<bar>snd d\<bar> \<le> 1"
proof (cases d)
  case (Pair dx dy)
  show ?thesis
    unfolding Pair unit_step fst_conv snd_conv directions_def by auto
qed

lemma set_getNeighbors:
  "set (getNeighbors n x y)
   = {(nx, ny). isValid n nx ny \<and> (nx, ny) \<noteq> (x, y) \<and> \<bar>nx - x\<bar> \<le> 1 \<and> \<bar>ny - y\<bar> \<le> 1}"
  (is "?L = ?R")
proof (rule set_eqI)
  fix c :: node
  obtain nx ny where c: "c = (nx, ny)" by (cases c)
  show "c \<in> ?L \<longleftrightarrow> c \<in> ?R"
  proof
    assume "c \<in> ?L"
    then obtain d where d: "d \<in> set directions" "nx = x + fst d" "ny = y + snd d" "isValid n nx ny"
      unfolding in_getNeighbors c by auto
    from d(1) have "d \<noteq> (0, 0)" "\<bar>fst d\<bar> \<le> 1" "\<bar>snd d\<bar> \<le> 1"
      unfolding in_directions by simp_all
    with d(2,3,4) show "c \<in> ?R"
      unfolding c by (cases d) auto
  next
    assume "c \<in> ?R"
    then have v: "isValid n nx ny" and ne: "(nx, ny) \<noteq> (x, y)"
      and dx: "\<bar>nx - x\<bar> \<le> 1" and dy: "\<bar>ny - y\<bar> \<le> 1"
      unfolding c by auto
    have "(nx - x, ny - y) \<in> set directions"
      unfolding in_directions using ne dx dy by auto
    moreover have "c = (x + fst (nx - x, ny - y), y + snd (nx - x, ny - y))"
      unfolding c by simp
    moreover have "isValid n (x + fst (nx - x, ny - y)) (y + snd (nx - x, ny - y))"
      using v by simp
    ultimately show "c \<in> ?L"
      unfolding in_getNeighbors by blast
  qed
qed

lemma fold_running_max:
  fixes v :: "'a \<Rightarrow> real"
  shows "fold (\<lambda>k m. if v k > m then v k else m) ns a = Max (insert a (v ` set ns))"
proof (induction ns arbitrary: a)
  case Nil
  show ?case by simp
next
  case (Cons k ns)
  have "fold (\<lambda>k m. if v k > m then v k else m) (k # ns) a
        = Max (insert (max a (v k)) (v ` set ns))"
    using Cons [of "if v k > a then v k else a"] by (simp add: max_def not_less)
  also have "\<dots> = Max (insert a (v ` set (k # ns)))"
    by (cases "set ns = {}") (simp_all add: max.assoc max.commute max.left_commute)
  finally show ?case .
qed

lemma maxNeighborRisk_Max:
  "maxNeighborRisk g ns = Max (insert 0 ((\<lambda>(nx, ny). g ! nat ny ! nat nx) ` set ns))"
proof -
  have "(\<lambda>(nx, ny) m. if g ! nat ny ! nat nx > m then g ! nat ny ! nat nx else m)
        = (\<lambda>k m. if (\<lambda>(nx, ny). g ! nat ny ! nat nx) k > m then (\<lambda>(nx, ny). g ! nat ny ! nat nx) k else m)"
    by (auto simp: fun_eq_iff)
  then show ?thesis
    unfolding maxNeighborRisk_def by (simp only: fold_running_max)
qed

lemma diffuseCell_update:
  "diffuseCell n old y x g =
     g[y := (g ! y)[x :=
        (if old ! y ! x \<ge> 100 then g ! y ! x
         else if maxNeighborRisk old (getNeighbors n (int x) (int y)) > 15
               \<and> real_of_int \<lfloor>maxNeighborRisk old (getNeighbors n (int x) (int y)) * 0.6\<rfloor> > g ! y ! x
              then real_of_int \<lfloor>maxNeighborRisk old (getNeighbors n (int x) (int y)) * 0.6\<rfloor>
              else g ! y ! x)]]"
  by (simp add: diffuseCell_def Let_def)

lemma applyRiskDiffusion_cell:
  assumes "wf_grid (gridSize pf) (grid pf)" and "x < gridSize pf" and "y < gridSize pf"
  shows "grid (applyRiskDiffusion pf) ! y ! x =
        (if grid pf ! y ! x \<ge> 100 then grid pf ! y ! x
         else if maxNeighborRisk (grid pf) (getNeighbors (gridSize pf) (int x) (int y)) > 15
               \<and> real_of_int \<lfloor>maxNeighborRisk (grid pf) (getNeighbors (gridSize pf) (int x) (int y)) * 0.6\<rfloor>
                   > grid pf ! y ! x
              then real_of_int \<lfloor>maxNeighborRisk (grid pf) (getNeighbors (gridSize pf) (int x) (int y)) * 0.6\<rfloor>
              else grid pf ! y ! x)"
  unfolding applyRiskDiffusion_def diffuseCell_update
  using grid_loop_nth [OF assms, of "\<lambda>y x cur.
        (if grid pf ! y ! x \<ge> 100 then cur
         else if maxNeighborRisk (grid pf) (getNeighbors (gridSize pf) (int x) (int y)) > 15
               \<and> real_of_int \<lfloor>maxNeighborRisk (grid pf) (getNeighbors (gridSize pf) (int x) (int y)) * 0.6\<rfloor> > cur
              then real_of_int \<lfloor>maxNeighborRisk (grid pf) (getNeighbors (gridSize pf) (int x) (int y)) * 0.6\<rfloor>
              else cur)"]
  by simp


text \<open>
  C5. One pass of \<open>applyRiskDiffusion\<close> leaves every cell with risk \<open>\<ge> 100\<close> unchanged,
  lowers no cell, and sets a cell below 100 to \<open>floor (m * 0.6)\<close>, where \<open>m\<close> is the
  maximum risk before the pass among its 8-connected neighbours (and 0), exactly when
  \<open>m > 15\<close> and \<open>floor (m * 0.6)\<close> exceeds the cell's risk; otherwise the cell keeps its
  risk.
\<close>

theorem applyRiskDiffusion_pass:
  assumes "wf_grid (gridSize pf) (grid pf)" and "x < gridSize pf" and "y < gridSize pf"
    and "m = maxNeighborRisk (grid pf) (getNeighbors (gridSize pf) (int x) (int y))"
  shows "(grid pf ! y ! x \<ge> 100 \<longrightarrow> grid (applyRiskDiffusion pf) ! y ! x = grid pf ! y ! x)
       \<and> grid pf ! y ! x \<le> grid (applyRiskDiffusion pf) ! y ! x
       \<and> (grid pf ! y ! x < 100 \<longrightarrow>
            grid (applyRiskDiffusion pf) ! y ! x
              = (if m > 15 \<and> real_of_int \<lfloor>m * 0.6\<rfloor> > grid pf ! y ! x
                 then real_of_int \<lfloor>m * 0.6\<rfloor> else grid pf ! y ! x))
       \<and> m = Max (insert 0 ((\<lambda>(nx, ny). grid pf ! nat ny ! nat nx) `
                    {(nx, ny). isValid (gridSize pf) nx ny \<and> (nx, ny) \<noteq> (int x, int y)
                               \<and> \<bar>nx - int x\<bar> \<le> 1 \<and> \<bar>ny - int y\<bar> \<le> 1}))"
proof -
  have m: "m = Max (insert 0 ((\<lambda>(nx, ny). grid pf ! nat ny ! nat nx) `
                    {(nx, ny). isValid (gridSize pf) nx ny \<and> (nx, ny) \<noteq> (int x, int y)
                               \<and> \<bar>nx - int x\<bar> \<le> 1 \<and> \<bar>ny - int y\<bar> \<le> 1}))"
    unfolding assms(4) maxNeighborRisk_Max set_getNeighbors ..
  show ?thesis
    using m applyRiskDiffusion_cell [OF assms(1-3)] unfolding assms(4) [symmetric]
    by (simp del: Max_insert)
qed

lemma islet_corner_max:
  "maxNeighborRisk (grid islet) (getNeighbors (gridSize islet) (int 0) (int 0)) = 100"
  by (simp add: islet_def maxNeighborRisk_def getNeighbors_def directions_def isValid_def)

theorem applyRiskDiffusion_pass_witness:
  "wf_grid (gridSize islet) (grid islet) \<and> 0 < gridSize islet
   \<and> grid islet ! 0 ! 0 = 10 \<and> grid (applyRiskDiffusion islet) ! 0 ! 0 = 60
   \<and> grid islet ! 1 ! 1 = 100 \<and> grid (applyRiskDiffusion islet) ! 1 ! 1 = 100"
proof -
  have wf: "wf_grid (gridSize islet) (grid islet)" and pos: "0 < gridSize islet" "1 < gridSize islet"
    by (simp_all add: islet_def wf_grid_def)
  have "grid (applyRiskDiffusion islet) ! 0 ! 0 = 60"
    using applyRiskDiffusion_pass [OF wf pos(1) pos(1) islet_corner_max [symmetric]]
    by (simp add: islet_def)
  moreover have "grid (applyRiskDiffusion islet) ! 1 ! 1 = 100"
    using applyRiskDiffusion_pass [OF wf pos(2) pos(2) refl]
    by (simp add: islet_def)
  ultimately show ?thesis
    using wf pos by (simp add: islet_def)
qed

section \<open>Termination of the search loop\<close>

lemma relax_closedSet [simp]: "closedSet (relax pf rw e c g n s) = closedSet s"
  by (simp add: relax_def Let_def)

lemma fold_relax_closedSet [simp]: "closedSet (fold (relax pf rw e c g) ns s) = closedSet s"
  by (induction ns arbitrary: s) simp_all

lemma find_fst_None: "find (\<lambda>m. fst m = n) xs = None \<longleftrightarrow> n \<notin> fst ` set xs"
  by (induction xs) auto

lemma relax_openSet:
  "\<exists>extra. openSet (relax pf rw e c g n s) = openSet s @ extra
           \<and> fst ` set extra \<subseteq> {n} - set (closedSet s) - fst ` set (openSet s)"
proof (cases "openSet (relax pf rw e c g n s) = openSet s")
  case True
  then have "openSet (relax pf rw e c g n s) = openSet s @ [] \<and>
      fst ` set [] \<subseteq> {n} - set (closedSet s) - fst ` set (openSet s)"
    by simp
  then show ?thesis by blast
next
  case False
  then have "n \<notin> set (closedSet s) \<and> n \<notin> fst ` set (openSet s)
      \<and> (\<exists>f. openSet (relax pf rw e c g n s) = openSet s @ [(n, f)])"
    by (simp add: relax_def Let_def find_fst_None split: if_splits)
  then obtain f where "openSet (relax pf rw e c g n s) = openSet s @ [(n, f)]"
     "fst ` set [(n, f)] \<subseteq> {n} - set (closedSet s) - fst ` set (openSet s)"
    by auto
  then show ?thesis by blast
qed

lemma fold_relax_openSet:
  "\<exists>extra. openSet (fold (relax pf rw e c g) ns s) = openSet s @ extra
           \<and> fst ` set extra \<subseteq> set ns - set (closedSet s) - fst ` set (openSet s)"
proof (induction ns arbitrary: s)
  case Nil
  show ?case by simp
next
  case (Cons n ns)
  obtain x1 where x1: "openSet (relax pf rw e c g n s) = openSet s @ x1"
      "fst ` set x1 \<subseteq> {n} - set (closedSet s) - fst ` set (openSet s)"
    using relax_openSet by blast
  obtain x2 where x2: "openSet (fold (relax pf rw e c g) ns (relax pf rw e c g n s))
        = openSet (relax pf rw e c g n s) @ x2"
      "fst ` set x2 \<subseteq> set ns - set (closedSet (relax pf rw e c g n s))
          - fst ` set (openSet (relax pf rw e c g n s))"
    using Cons by blast
  have "openSet (fold (relax pf rw e c g) (n # ns) s) = openSet s @ (x1 @ x2)"
    using x1(1) x2(1) by simp
  moreover have "fst ` set (x1 @ x2) \<subseteq> set (n # ns) - set (closedSet s) - fst ` set (openSet s)"
    using x1 x2(2) by auto
  ultimately show ?case by blast
qed

lemma finite_cells [simp]: "finite (cells n)"
  by (simp add: cells_def)

lemma getNeighbors_cells: "set (getNeighbors n x y) \<subseteq> cells n"
  by (auto simp: in_getNeighbors cells_def isValid_def)

lemma expand_closedSet [simp]:
  "closedSet (expand pf rw e c g rest s) = setAdd c (closedSet s)"
  by (simp add: expand_def)

lemma expand_openSet:
  "\<exists>extra. openSet (expand pf rw e c g rest s) = rest @ extra
           \<and> fst ` set extra \<subseteq> cells (gridSize pf) - set (setAdd c (closedSet s)) - fst ` set rest"
  using fold_relax_openSet [of pf rw e c g "getNeighbors (gridSize pf) (fst c) (snd c)"
      "s\<lparr>openSet := rest, closedSet := setAdd c (closedSet s)\<rparr>"]
    getNeighbors_cells [of "gridSize pf" "fst c" "snd c"]
  unfolding expand_def by auto

lemma expand_decreases:
  assumes "sort_key snd (openSet s) = current # rest"
  shows "pending pf (expand pf rw e (fst current) g rest s) < pending pf s
       \<or> (pending pf (expand pf rw e (fst current) g rest s) = pending pf s
          \<and> stale (expand pf rw e (fst current) g rest s) < stale s)"
proof -
  let ?c = "fst current"
  let ?s' = "expand pf rw e ?c g rest s"
  let ?U = "cells (gridSize pf)"
  obtain extra where ex: "openSet ?s' = rest @ extra"
      "fst ` set extra \<subseteq> ?U - set (setAdd ?c (closedSet s)) - fst ` set rest"
    using expand_openSet by blast
  have setop: "set (openSet s) = insert current (set rest)"
    using arg_cong [OF assms, of set] by simp
  have fin: "finite ((?U \<union> fst ` set (openSet s)) - set (closedSet s))"
    by simp
  have sub: "(?U \<union> fst ` set (openSet ?s')) - set (closedSet ?s')
             \<subseteq> (?U \<union> fst ` set (openSet s)) - set (closedSet s)"
    using ex setop by (auto simp: setAdd_def)
  show ?thesis
  proof (cases "?c \<in> set (closedSet s)")
    case False
    have "?c \<in> (?U \<union> fst ` set (openSet s)) - set (closedSet s)"
      using False setop by auto
    moreover have "?c \<notin> (?U \<union> fst ` set (openSet ?s')) - set (closedSet ?s')"
      by (simp add: setAdd_def)
    ultimately have "(?U \<union> fst ` set (openSet ?s')) - set (closedSet ?s')
             \<subset> (?U \<union> fst ` set (openSet s)) - set (closedSet s)"
      using sub by blast
    then show ?thesis
      unfolding pending_def using fin psubset_card_mono by blast
  next
    case True
    then have cl: "closedSet ?s' = closedSet s" by (simp add: setAdd_def)
    have le: "pending pf ?s' \<le> pending pf s"
      unfolding pending_def using fin sub card_mono by blast
    have "filter (\<lambda>n. fst n \<in> set (closedSet s)) extra = []"
      using ex(2) True by (auto simp: filter_empty_conv setAdd_def)
    then have "stale ?s' = length (filter (\<lambda>n. fst n \<in> set (closedSet s)) rest)"
      unfolding stale_def cl ex(1) by simp
    moreover have "stale s = length (filter (\<lambda>n. fst n \<in> set (closedSet s)) (current # rest))"
      unfolding stale_def assms [symmetric] by (simp add: filter_sort)
    ultimately have "stale ?s' < stale s" using True by simp
    with le show ?thesis by linarith
  qed
qed

text \<open>The \<open>while\<close> loop of \<open>findPath\<close> ends from every state.\<close>

termination astar_loop
proof (relation "inv_image (less_than <*lex*> less_than) (\<lambda>(pf, rw, e, s). (pending pf s, stale s))")
  show "wf (inv_image (less_than <*lex*> less_than) (\<lambda>(pf, rw, e, s). (pending pf s, stale s)))"
    by (intro wf_inv_image wf_lex_prod wf_less_than)
next
  fix pf rw endNode and s :: search and current rest g
  assume "sort_key snd (openSet s) = current # rest"
  then show "((pf, rw, endNode, expand pf rw endNode (fst current) g rest s), pf, rw, endNode, s)
       \<in> inv_image (less_than <*lex*> less_than) (\<lambda>(pf, rw, e, s). (pending pf s, stale s))"
    using expand_decreases [of s current rest pf rw endNode g] by auto
qed


declare astar_loop.simps [simp del]

section \<open>Invariant of the search\<close>

lemma cells_iff: "c \<in> cells n \<longleftrightarrow> isValid n (fst c) (snd c)"
  by (cases c) (auto simp: cells_def isValid_def)

lemma search_invI:
  assumes "distinct (map fst (openSet s))" and "distinct (closedSet s)"
    and "fst ` set (openSet s) \<inter> set (closedSet s) = {}"
    and "fst ` set (openSet s) \<subseteq> cells (gridSize pf)"
    and "set (closedSet s) \<subseteq> cells (gridSize pf)"
    and "fst ` set (openSet s) \<subseteq> dom (gScore s)"
    and "\<And>k p. cameFrom s k = Some p \<Longrightarrow>
           p \<in> set (closedSet s)
           \<and> k \<in> set (getNeighbors (gridSize pf) (fst p) (snd p))
           \<and> grid pf ! nat (snd k) ! nat (fst k) < 100"
    and "\<And>i p. i < length (closedSet s) \<Longrightarrow> cameFrom s (closedSet s ! i) = Some p \<Longrightarrow>
           p \<in> set (take i (closedSet s))"
  shows "search_inv pf s"
proof -
  have 7: "\<forall>k p. cameFrom s k = Some p \<longrightarrow>
           p \<in> set (closedSet s)
           \<and> k \<in> set (getNeighbors (gridSize pf) (fst p) (snd p))
           \<and> grid pf ! nat (snd k) ! nat (fst k) < 100"
    by (intro allI impI) (rule assms(7))
  have 8: "\<forall>i < length (closedSet s). \<forall>p. cameFrom s (closedSet s ! i) = Some p \<longrightarrow>
           p \<in> set (take i (closedSet s))"
    by (intro allI impI) (rule assms(8))
  show ?thesis
    unfolding search_inv_def by (intro conjI assms(1-6) 7 8)
qed

lemma search_invD:
  assumes "search_inv pf s"
  shows "distinct (map fst (openSet s))" and "distinct (closedSet s)"
    and "fst ` set (openSet s) \<inter> set (closedSet s) = {}"
    and "fst ` set (openSet s) \<subseteq> cells (gridSize pf)"
    and "set (closedSet s) \<subseteq> cells (gridSize pf)"
    and "fst ` set (openSet s) \<subseteq> dom (gScore s)"
    and "\<And>k p. cameFrom s k = Some p \<Longrightarrow>
           p \<in> set (closedSet s)
           \<and> k \<in> set (getNeighbors (gridSize pf) (fst p) (snd p))
           \<and> grid pf ! nat (snd k) ! nat (fst k) < 100"
    and "\<And>i p. i < length (closedSet s) \<Longrightarrow> cameFrom s (closedSet s ! i) = Some p \<Longrightarrow>
           p \<in> set (take i (closedSet s))"
proof -
  have a: "distinct (map fst (openSet s))
     \<and> distinct (closedSet s)
     \<and> fst ` set (openSet s) \<inter> set (closedSet s) = {}
     \<and> fst ` set (openSet s) \<subseteq> cells (gridSize pf)
     \<and> set (closedSet s) \<subseteq> cells (gridSize pf)
     \<and> fst ` set (openSet s) \<subseteq> dom (gScore s)
     \<and> (\<forall>k p. cameFrom s k = Some p \<longrightarrow>
           p \<in> set (closedSet s)
           \<and> k \<in> set (getNeighbors (gridSize pf) (fst p) (snd p))
           \<and> grid pf ! nat (snd k) ! nat (fst k) < 100)
     \<and> (\<forall>i < length (closedSet s). \<forall>p. cameFrom s (closedSet s ! i) = Some p \<longrightarrow>
           p \<in> set (take i (closedSet s)))"
    using assms unfolding search_inv_def .
  from a show "distinct (map fst (openSet s))" by (elim conjE)
  from a show "distinct (closedSet s)" by (elim conjE)
  from a show "fst ` set (openSet s) \<inter> set (closedSet s) = {}" by (elim conjE)
  from a show "fst ` set (openSet s) \<subseteq> cells (gridSize pf)" by (elim conjE)
  from a show "set (closedSet s) \<subseteq> cells (gridSize pf)" by (elim conjE)
  from a show "fst ` set (openSet s) \<subseteq> dom (gScore s)" by (elim conjE)
  from a have 7: "\<forall>k p. cameFrom s k = Some p \<longrightarrow>
           p \<in> set (closedSet s)
           \<and> k \<in> set (getNeighbors (gridSize pf) (fst p) (snd p))
           \<and> grid pf ! nat (snd k) ! nat (fst k) < 100" by (elim conjE)
  from a have 8: "\<forall>i < length (closedSet s). \<forall>p. cameFrom s (closedSet s ! i) = Some p \<longrightarrow>
           p \<in> set (take i (closedSet s))" by (elim conjE)
  show "\<And>k p. cameFrom s k = Some p \<Longrightarrow>
           p \<in> set (closedSet s)
           \<and> k \<in> set (getNeighbors (gridSize pf) (fst p) (snd p))
           \<and> grid pf ! nat (snd k) ! nat (fst k) < 100"
    using 7 by (elim allE impE) assumption
  show "\<And>i p. i < length (closedSet s) \<Longrightarrow> cameFrom s (closedSet s ! i) = Some p \<Longrightarrow>
           p \<in> set (take i (closedSet s))"
    using 8 by (elim allE impE) assumption+
qed

lemma initial_inv:
  assumes "isValid (gridSize pf) (fst a) (snd a)"
  shows "search_inv pf (initial a e)"
  using assms by (intro search_invI) (simp_all add: initial_def cells_iff)

lemma relax_cases:
  "relax pf rw e c g n s = s
   \<or> (n \<notin> set (closedSet s) \<and> grid pf ! nat (snd n) ! nat (fst n) < 100
      \<and> (\<exists>t f. relax pf rw e c g n s
             = s\<lparr>cameFrom := (cameFrom s)(n \<mapsto> c), gScore := (gScore s)(n \<mapsto> t),
                  fScore := (fScore s)(n \<mapsto> f),
                  openSet := (if n \<in> fst ` set (openSet s) then openSet s else openSet s @ [(n, f)])\<rparr>))"
proof (cases "relax pf rw e c g n s = s")
  case True
  then show ?thesis by simp
next
  case False
  then have 1: "n \<notin> set (closedSet s)" and 2: "grid pf ! nat (snd n) ! nat (fst n) < 100"
    by (auto simp: relax_def Let_def split: if_splits)
  from False have 3: "(case gScore s n of None \<Rightarrow> True
         | Some old \<Rightarrow> g + distCost c n + riskCost (grid pf ! nat (snd n) ! nat (fst n)) rw < old)"
    by (auto simp: relax_def Let_def split: if_splits)
  let ?t = "g + distCost c n + riskCost (grid pf ! nat (snd n) ! nat (fst n)) rw"
  have "relax pf rw e c g n s
         = s\<lparr>cameFrom := (cameFrom s)(n \<mapsto> c), gScore := (gScore s)(n \<mapsto> ?t),
              fScore := (fScore s)(n \<mapsto> ?t + heuristic n e),
              openSet := (if n \<in> fst ` set (openSet s) then openSet s
                          else openSet s @ [(n, ?t + heuristic n e)])\<rparr>"
    using 1 2 3 by (simp add: relax_def Let_def find_fst_None)
  with 1 2 show ?thesis by blast
qed

lemma relax_inv:
  assumes inv: "search_inv pf s" and c: "c \<in> set (closedSet s)"
    and n: "n \<in> set (getNeighbors (gridSize pf) (fst c) (snd c))"
  shows "search_inv pf (relax pf rw e c g n s)"
proof -
  consider "relax pf rw e c g n s = s"
    | t f where "n \<notin> set (closedSet s)" "grid pf ! nat (snd n) ! nat (fst n) < 100"
       "relax pf rw e c g n s
             = s\<lparr>cameFrom := (cameFrom s)(n \<mapsto> c), gScore := (gScore s)(n \<mapsto> t),
                  fScore := (fScore s)(n \<mapsto> f),
                  openSet := (if n \<in> fst ` set (openSet s) then openSet s else openSet s @ [(n, f)])\<rparr>"
    using relax_cases [of pf rw e c g n s] by blast
  then show ?thesis
  proof cases
    case 1
    with inv show ?thesis by simp
  next
    case 2
    note D = search_invD [OF inv]
    let ?s' = "relax pf rw e c g n s"
    have op: "openSet ?s' = (if n \<in> fst ` set (openSet s) then openSet s else openSet s @ [(n, f)])"
      and cl: "closedSet ?s' = closedSet s"
      and cf: "cameFrom ?s' = (cameFrom s)(n \<mapsto> c)"
      and gs: "gScore ?s' = (gScore s)(n \<mapsto> t)"
      unfolding 2(3) by simp_all
    have ncell: "n \<in> cells (gridSize pf)"
      using n getNeighbors_cells by blast
    show ?thesis
    proof (rule search_invI)
      show "distinct (map fst (openSet ?s'))"
        unfolding op using D(1) by simp
      show "distinct (closedSet ?s')"
        unfolding cl by (rule D(2))
      show "fst ` set (openSet ?s') \<inter> set (closedSet ?s') = {}"
        unfolding op cl using D(3) 2(1) by auto
      show "fst ` set (openSet ?s') \<subseteq> cells (gridSize pf)"
        unfolding op using D(4) ncell by auto
      show "set (closedSet ?s') \<subseteq> cells (gridSize pf)"
        unfolding cl by (rule D(5))
      show "fst ` set (openSet ?s') \<subseteq> dom (gScore ?s')"
        unfolding op gs using D(6) by auto
    next
      fix k p assume "cameFrom ?s' k = Some p"
      then have "(k = n \<and> p = c) \<or> cameFrom s k = Some p"
        unfolding cf by (auto split: if_splits)
      then show "p \<in> set (closedSet ?s')
           \<and> k \<in> set (getNeighbors (gridSize pf) (fst p) (snd p))
           \<and> grid pf ! nat (snd k) ! nat (fst k) < 100"
        unfolding cl using c n 2(2) D(7) by blast
    next
      fix i p assume i: "i < length (closedSet ?s')" and p: "cameFrom ?s' (closedSet ?s' ! i) = Some p"
      have "closedSet s ! i \<noteq> n"
        using i 2(1) nth_mem unfolding cl by metis
      then have "cameFrom s (closedSet s ! i) = Some p"
        using p unfolding cf cl by simp
      then show "p \<in> set (take i (closedSet ?s'))"
        unfolding cl using D(8) i [unfolded cl] by blast
    qed
  qed
qed

lemma fold_relax_inv:
  assumes "search_inv pf s" and "c \<in> set (closedSet s)"
    and "set ns \<subseteq> set (getNeighbors (gridSize pf) (fst c) (snd c))"
  shows "search_inv pf (fold (relax pf rw e c g) ns s)"
  using assms
proof (induction ns arbitrary: s)
  case Nil
  then show ?case by simp
next
  case (Cons n ns)
  have "search_inv pf (relax pf rw e c g n s)"
    using Cons.prems by (intro relax_inv) auto
  moreover have "c \<in> set (closedSet (relax pf rw e c g n s))"
    using Cons.prems by simp
  ultimately show ?case
    using Cons.IH Cons.prems(3) by simp
qed

lemma shift_inv:
  assumes inv: "search_inv pf s" and srt: "sort_key snd (openSet s) = current # rest"
  shows "search_inv pf (s\<lparr>openSet := rest, closedSet := closedSet s @ [fst current]\<rparr>)"
    and "fst current \<notin> set (closedSet s)"
proof -
  note D = search_invD [OF inv]
  have setop: "set (openSet s) = insert current (set rest)"
    using arg_cong [OF srt, of set] by simp
  have "distinct (map fst (sort_key snd (openSet s)))"
    using D(1) by (simp add: distinct_map)
  then have d: "fst current \<notin> fst ` set rest" "distinct (map fst rest)"
    unfolding srt by simp_all
  show nc: "fst current \<notin> set (closedSet s)"
    using D(3) setop by auto
  let ?s' = "s\<lparr>openSet := rest, closedSet := closedSet s @ [fst current]\<rparr>"
  show "search_inv pf ?s'"
  proof (rule search_invI)
    show "distinct (map fst (openSet ?s'))"
      using d(2) by simp
    show "distinct (closedSet ?s')"
      using D(2) nc by simp
    show "fst ` set (openSet ?s') \<inter> set (closedSet ?s') = {}"
      using D(3) d(1) setop by auto
    show "fst ` set (openSet ?s') \<subseteq> cells (gridSize pf)"
      using D(4) setop by auto
    show "set (closedSet ?s') \<subseteq> cells (gridSize pf)"
      using D(4,5) setop by auto
    show "fst ` set (openSet ?s') \<subseteq> dom (gScore ?s')"
      using D(6) setop by auto
  next
    fix k p assume "cameFrom ?s' k = Some p"
    then show "p \<in> set (closedSet ?s')
           \<and> k \<in> set (getNeighbors (gridSize pf) (fst p) (snd p))
           \<and> grid pf ! nat (snd k) ! nat (fst k) < 100"
      using D(7) [of k p] by simp
  next
    fix i p assume i: "i < length (closedSet ?s')" and p: "cameFrom ?s' (closedSet ?s' ! i) = Some p"
    show "p \<in> set (take i (closedSet ?s'))"
    proof (cases "i < length (closedSet s)")
      case True
      then show ?thesis
        using D(8) [of i p] p by (simp add: nth_append)
    next
      case False
      then have "i = length (closedSet s)" using i by simp
      then show ?thesis
        using D(7) [of "fst current" p] p by simp
    qed
  qed
qed

lemma expand_inv:
  assumes inv: "search_inv pf s" and srt: "sort_key snd (openSet s) = current # rest"
  shows "search_inv pf (expand pf rw e (fst current) g rest s)"
    and "closedSet (expand pf rw e (fst current) g rest s) = closedSet s @ [fst current]"
proof -
  have nc: "fst current \<notin> set (closedSet s)"
    using shift_inv(2) [OF inv srt] .
  then have add: "setAdd (fst current) (closedSet s) = closedSet s @ [fst current]"
    by (simp add: setAdd_def)
  show "closedSet (expand pf rw e (fst current) g rest s) = closedSet s @ [fst current]"
    by (simp add: add)
  show "search_inv pf (expand pf rw e (fst current) g rest s)"
    unfolding expand_def add
    by (rule fold_relax_inv [OF shift_inv(1) [OF inv srt]]) simp_all
qed

lemma astar_step_cases:
  assumes "astar_step pf rw e s = Some s'"
  obtains current rest g where "sort_key snd (openSet s) = current # rest" "fst current \<noteq> e"
    "gScore s (fst current) = Some g" "s' = expand pf rw e (fst current) g rest s"
  using assms unfolding astar_step_def
  by (auto split: list.splits if_splits option.splits)

lemma astar_step_inv:
  assumes "search_inv pf s" and "astar_step pf rw e s = Some s'"
  shows "search_inv pf s'" and "length (closedSet s') = Suc (length (closedSet s))"
proof -
  obtain current rest g where c: "sort_key snd (openSet s) = current # rest"
    "s' = expand pf rw e (fst current) g rest s"
    using astar_step_cases [OF assms(2)] by metis
  show "search_inv pf s'"
    unfolding c(2) by (rule expand_inv(1) [OF assms(1) c(1)])
  show "length (closedSet s') = Suc (length (closedSet s))"
    unfolding c(2) expand_inv(2) [OF assms(1) c(1)] by simp
qed

lemma rounds_inv:
  assumes "rounds pf rw e s n s'" and "search_inv pf s"
  shows "search_inv pf s' \<and> length (closedSet s') = length (closedSet s) + n"
  using assms
proof (induction rule: rounds.induct)
  case rounds_0
  then show ?case by simp
next
  case (rounds_Suc n s' s'')
  then show ?case
    using astar_step_inv [of pf s' rw e s''] by simp
qed

lemma card_cells: "card (cells n) = n * n"
  by (simp add: cells_def)

lemma closed_bound:
  assumes "search_inv pf s"
  shows "length (closedSet s) \<le> gridSize pf * gridSize pf"
proof -
  have "length (closedSet s) = card (set (closedSet s))"
    using assms by (simp add: search_inv_def distinct_card)
  also have "\<dots> \<le> card (cells (gridSize pf))"
    using assms by (intro card_mono) (simp_all add: search_inv_def)
  finally show ?thesis by (simp add: card_cells)
qed

section \<open>Results of the search\<close>

text \<open>How the loop ends from a state that satisfies the invariant.\<close>

lemma astar_loop_outcome:
  assumes "search_inv pf s"
  shows "astar_loop pf rw e s = Exhausted
       \<or> (\<exists>s' f. search_inv pf s' \<and> (e, f) \<in> set (openSet s')
              \<and> astar_loop pf rw e s = Found (cameFrom s') e)"
  using assms
proof (induction pf rw e s rule: astar_loop.induct)
  case (1 pf rw endNode s)
  show ?case
  proof (cases "sort_key snd (openSet s)")
    case Nil
    then show ?thesis by (simp add: astar_loop.simps [of pf rw endNode s])
  next
    case (Cons current rest)
    have mem: "current \<in> set (openSet s)"
      using arg_cong [OF Cons, of set] by auto
    show ?thesis
    proof (cases "fst current = endNode")
      case True
      then have "astar_loop pf rw endNode s = Found (cameFrom s) endNode"
        using Cons by (simp add: astar_loop.simps [of pf rw endNode s])
      moreover have "(endNode, snd current) \<in> set (openSet s)"
        using mem True by (metis prod.collapse)
      ultimately show ?thesis using "1.prems" by blast
    next
      case False
      have "fst current \<in> dom (gScore s)"
        using search_invD(6) [OF "1.prems"] mem by auto
      then obtain g where g: "gScore s (fst current) = Some g" by auto
      have step: "astar_loop pf rw endNode s
            = astar_loop pf rw endNode (expand pf rw endNode (fst current) g rest s)"
        using Cons False g by (simp add: astar_loop.simps [of pf rw endNode s])
      show ?thesis
        unfolding step
        by (rule "1.IH" [OF Cons False g expand_inv(1) [OF "1.prems" Cons]])
    qed
  qed
qed

text \<open>\<open>reconstructPath\<close> ends on the \<open>cameFrom\<close> of such a state.\<close>

lemma reconstruct_closed:
  assumes inv: "search_inv pf s" and i: "i < length (closedSet s)"
  shows "\<exists>r. reconstruct_loop (cameFrom s) (closedSet s ! i) acc = Some r"
  using i
proof (induction i arbitrary: acc rule: less_induct)
  case (less i)
  show ?case
  proof (cases "cameFrom s (closedSet s ! i)")
    case None
    then show ?thesis by (simp add: reconstruct_loop.simps [of _ "closedSet s ! i"])
  next
    case (Some p)
    then have "p \<in> set (take i (closedSet s))"
      using search_invD(8) [OF inv less.prems] by blast
    then obtain j where j: "j < i" "closedSet s ! j = p"
      using less.prems by (auto simp: in_set_conv_nth)
    then have "\<exists>r. reconstruct_loop (cameFrom s) p (p # acc) = Some r"
      using less.IH [of j "p # acc"] less.prems by simp
    then show ?thesis
      using Some by (simp add: reconstruct_loop.simps [of _ "closedSet s ! i"])
  qed
qed

lemma reconstruct_returns:
  assumes inv: "search_inv pf s"
  shows "\<exists>r. reconstruct_loop (cameFrom s) k acc = Some r"
proof (cases "cameFrom s k")
  case None
  then show ?thesis by (simp add: reconstruct_loop.simps [of _ k])
next
  case (Some p)
  then have "p \<in> set (closedSet s)"
    using search_invD(7) [OF inv] by blast
  then obtain i where "i < length (closedSet s)" "closedSet s ! i = p"
    by (auto simp: in_set_conv_nth)
  then have "\<exists>r. reconstruct_loop (cameFrom s) p (p # acc) = Some r"
    using reconstruct_closed [OF inv, of i "p # acc"] by simp
  then show ?thesis
    using Some by (simp add: reconstruct_loop.simps [of _ k])
qed

text \<open>The cells of a reconstructed path, but for the first, have a \<open>cameFrom\<close> entry.\<close>

lemma reconstruct_tail:
  assumes "reconstruct_loop cf k nodes = Some r"
  shows "nodes \<noteq> [] \<longrightarrow> hd nodes = k \<longrightarrow> set (tl nodes) \<subseteq> dom cf
         \<longrightarrow> r \<noteq> [] \<and> set (tl r) \<subseteq> dom cf \<and> last r = last nodes"
proof (rule reconstruct_loop.raw_induct
    [where P = "\<lambda>cf k nodes r. nodes \<noteq> [] \<longrightarrow> hd nodes = k \<longrightarrow> set (tl nodes) \<subseteq> dom cf
         \<longrightarrow> r \<noteq> [] \<and> set (tl r) \<subseteq> dom cf \<and> last r = last nodes", OF _ assms])
  fix f :: "(node \<rightharpoonup> node) \<Rightarrow> node \<Rightarrow> node list \<Rightarrow> node list option"
  fix cf key totalPath y
  assume IH: "\<And>cf key totalPath y. f cf key totalPath = Some y \<Longrightarrow>
      totalPath \<noteq> [] \<longrightarrow> hd totalPath = key \<longrightarrow> set (tl totalPath) \<subseteq> dom cf
         \<longrightarrow> y \<noteq> [] \<and> set (tl y) \<subseteq> dom cf \<and> last y = last totalPath"
    and eq: "(case cf key of None \<Rightarrow> Some totalPath
              | Some current \<Rightarrow> f cf current (current # totalPath)) = Some y"
  show "totalPath \<noteq> [] \<longrightarrow> hd totalPath = key \<longrightarrow> set (tl totalPath) \<subseteq> dom cf
         \<longrightarrow> y \<noteq> [] \<and> set (tl y) \<subseteq> dom cf \<and> last y = last totalPath"
  proof (intro impI)
    assume ne: "totalPath \<noteq> []" and hd: "hd totalPath = key" and tl: "set (tl totalPath) \<subseteq> dom cf"
    show "y \<noteq> [] \<and> set (tl y) \<subseteq> dom cf \<and> last y = last totalPath"
    proof (cases "cf key")
      case None
      with eq ne tl show ?thesis by simp
    next
      case (Some c)
      then have "f cf c (c # totalPath) = Some y"
        using eq by simp
      moreover have "set (tl (c # totalPath)) \<subseteq> dom cf"
        using ne hd tl Some by (cases totalPath) auto
      ultimately show ?thesis
        using IH [of cf c "c # totalPath" y] ne by simp
    qed
  qed
qed

lemma search_returns:
  assumes "isValid (gridSize pf) (fst a) (snd a)"
  shows "search pf a e t = Some []
       \<or> (\<exists>s r. search_inv pf s \<and> reconstruct_loop (cameFrom s) e [e] = Some r
              \<and> search pf a e t = Some (map (gridToLatLng (pf_bounds pf) (gridSize pf)) r))"
proof -
  have inv: "search_inv pf (initial a e)"
    by (rule initial_inv [OF assms])
  from astar_loop_outcome [OF inv, of "riskWeight t" e]
  show ?thesis
  proof
    assume "astar_loop pf (riskWeight t) e (initial a e) = Exhausted"
    then show ?thesis by (simp add: search_def)
  next
    assume "\<exists>s' f. search_inv pf s' \<and> (e, f) \<in> set (openSet s')
              \<and> astar_loop pf (riskWeight t) e (initial a e) = Found (cameFrom s') e"
    then obtain s' where s': "search_inv pf s'"
        "astar_loop pf (riskWeight t) e (initial a e) = Found (cameFrom s') e"
      by blast
    obtain r where r: "reconstruct_loop (cameFrom s') e [e] = Some r"
      using reconstruct_returns [OF s'(1)] by blast
    have "search pf a e t = Some (map (gridToLatLng (pf_bounds pf) (gridSize pf)) r)"
      using s'(2) r by (simp add: search_def reconstructPath_def)
    with s'(1) r show ?thesis by blast
  qed
qed

lemma findPath_returns:
  "\<exists>route. findPath pf a b t = Some route"
proof (cases "isValid (gridSize pf) (fst (latLngToGrid (pf_bounds pf) (gridSize pf) a))
                (snd (latLngToGrid (pf_bounds pf) (gridSize pf) a))
              \<and> isValid (gridSize pf) (fst (latLngToGrid (pf_bounds pf) (gridSize pf) b))
                (snd (latLngToGrid (pf_bounds pf) (gridSize pf) b))")
  case False
  then show ?thesis by (auto simp: findPath_def Let_def)
next
  case True
  then have "findPath pf a b t = search pf (latLngToGrid (pf_bounds pf) (gridSize pf) a)
      (latLngToGrid (pf_bounds pf) (gridSize pf) b) t"
    by (simp add: findPath_def Let_def)
  then show ?thesis
    using search_returns [of pf "latLngToGrid (pf_bounds pf) (gridSize pf) a"
        "latLngToGrid (pf_bounds pf) (gridSize pf) b" t] True
    by auto
qed

lemma rounds_bounded:
  assumes "isValid (gridSize pf) (fst a) (snd a)" and "rounds pf rw e (initial a e) n s"
  shows "n \<le> gridSize pf * gridSize pf" and "length (closedSet s) = n"
    and "distinct (closedSet s)" and "distinct (map fst (openSet s))"
    and "fst ` set (openSet s) \<inter> set (closedSet s) = {}"
proof -
  have inv: "search_inv pf s" and len: "length (closedSet s) = length (closedSet (initial a e)) + n"
    using rounds_inv [OF assms(2) initial_inv [OF assms(1)]] by simp_all
  show "length (closedSet s) = n"
    using len by (simp add: initial_def)
  then show "n \<le> gridSize pf * gridSize pf"
    using closed_bound [OF inv] by simp
  show "distinct (closedSet s)" "distinct (map fst (openSet s))"
    "fst ` set (openSet s) \<inter> set (closedSet s) = {}"
    using search_invD(1-3) [OF inv] by simp_all
qed

text \<open>
  C10. \<open>findPath\<close> returns for every start, goal, risk tolerance and grid. After \<open>n\<close>
  rounds of its loop the closed set holds exactly \<open>n\<close> cells, each once, none of them is
  on the frontier, the frontier holds no cell twice, and \<open>n\<close> is at most
  \<open>gridSize * gridSize\<close>.
\<close>

theorem findPath_terminates:
  assumes "wf_grid (gridSize pf) (grid pf)"
    and "startNode = latLngToGrid (pf_bounds pf) (gridSize pf) a"
    and "endNode = latLngToGrid (pf_bounds pf) (gridSize pf) b"
  shows "(\<exists>route. findPath pf a b t = Some route)
       \<and> (isValid (gridSize pf) (fst startNode) (snd startNode) \<longrightarrow>
          (\<forall>n s. rounds pf (riskWeight t) endNode (initial startNode endNode) n s \<longrightarrow>
               n \<le> gridSize pf * gridSize pf
               \<and> length (closedSet s) = n
               \<and> distinct (closedSet s)
               \<and> distinct (map fst (openSet s))
               \<and> fst ` set (openSet s) \<inter> set (closedSet s) = {}))"
  using findPath_returns [of pf a b t] rounds_bounded [of pf startNode "riskWeight t" endNode]
  by blast

lemma islet_cells:
  "latLngToGrid (pf_bounds islet) (gridSize islet) southWest = (0, 0)"
  "latLngToGrid (pf_bounds islet) (gridSize islet) southEast = (2, 0)"
  by (simp_all add: latLngToGrid_def islet_def southWest_def southEast_def)

lemma islet_first_round:
  "astar_step islet (riskWeight 100) (2, 0) (initial (0, 0) (2, 0))
   = Some (expand islet (riskWeight 100) (2, 0) (0, 0) 0 [] (initial (0, 0) (2, 0)))"
  by (simp add: astar_step_def initial_def)

theorem findPath_terminates_witness:
  "wf_grid (gridSize islet) (grid islet)
   \<and> isValid (gridSize islet) 0 0
   \<and> rounds islet (riskWeight 100) (2, 0) (initial (0, 0) (2, 0)) 1
        (expand islet (riskWeight 100) (2, 0) (0, 0) 0 [] (initial (0, 0) (2, 0)))
   \<and> length (closedSet (expand islet (riskWeight 100) (2, 0) (0, 0) 0 [] (initial (0, 0) (2, 0)))) = 1
   \<and> (\<exists>route. findPath islet southWest southEast 100 = Some route)"
proof -
  have wf: "wf_grid (gridSize islet) (grid islet)"
    by (simp add: islet_def wf_grid_def)
  have v: "isValid (gridSize islet) 0 0"
    by (simp add: islet_def isValid_def)
  have r: "rounds islet (riskWeight 100) (2, 0) (initial (0, 0) (2, 0)) 1
        (expand islet (riskWeight 100) (2, 0) (0, 0) 0 [] (initial (0, 0) (2, 0)))"
    using rounds_Suc [OF rounds_0 islet_first_round] by simp
  note T = findPath_terminates [OF wf islet_cells(1) [symmetric] islet_cells(2) [symmetric], of 100]
  have "length (closedSet (expand islet (riskWeight 100) (2, 0) (0, 0) 0 [] (initial (0, 0) (2, 0)))) = 1"
    using T v r by (simp del: expand_closedSet)
  then show ?thesis
    using wf v r T by (simp del: expand_closedSet)
qed

section \<open>Obstacles and routes\<close>

subsection \<open>Obstacles\<close>

lemma applyRiskDiffusion_fields [simp]:
  "gridSize (applyRiskDiffusion pf) = gridSize pf"
  "pf_bounds (applyRiskDiffusion pf) = pf_bounds pf"
  "weatherSystem (applyRiskDiffusion pf) = weatherSystem pf"
  by (simp_all add: applyRiskDiffusion_def)

lemma markObstacles_fields [simp]:
  "gridSize (markObstacles polygons pf) = gridSize pf"
  "pf_bounds (markObstacles polygons pf) = pf_bounds pf"
  "weatherSystem (markObstacles polygons pf) = weatherSystem pf"
  by (simp_all add: markObstacles_def Let_def)






subsection \<open>Routes\<close>

lemma route_cells:
  assumes "findPath pf a e t = Some route"
  shows "\<exists>r. route = map (gridToLatLng (pf_bounds pf) (gridSize pf)) r
            \<and> (\<forall>k \<in> set (tl r). isValid (gridSize pf) (fst k) (snd k)
                    \<and> grid pf ! nat (snd k) ! nat (fst k) < 100)"

proof -
  let ?a = "latLngToGrid (pf_bounds pf) (gridSize pf) a"
  let ?e = "latLngToGrid (pf_bounds pf) (gridSize pf) e"
  have nil: "route = [] \<Longrightarrow> ?thesis"
    by (intro exI [of _ "[]"]) simp
  show ?thesis
  proof (cases "isValid (gridSize pf) (fst ?a) (snd ?a) \<and> isValid (gridSize pf) (fst ?e) (snd ?e)")
    case False
    then have "route = []"
      using assms by (auto simp: findPath_def Let_def)
    then show ?thesis by (rule nil)
  next
    case True
    then have fp: "search pf ?a ?e t = Some route"
      using assms by (simp add: findPath_def Let_def)
    from search_returns [of pf ?a ?e t] True
    consider "search pf ?a ?e t = Some []"
      | s r where "search_inv pf s" "reconstruct_loop (cameFrom s) ?e [?e] = Some r"
          "search pf ?a ?e t = Some (map (gridToLatLng (pf_bounds pf) (gridSize pf)) r)"
      by blast
    then show ?thesis
    proof cases
      case 1
      with fp show ?thesis by (intro nil) simp
    next
      case 2
      have tl: "set (tl r) \<subseteq> dom (cameFrom s)"
        using reconstruct_tail [OF 2(2)] by simp
      have "isValid (gridSize pf) (fst k) (snd k) \<and> grid pf ! nat (snd k) ! nat (fst k) < 100"
        if k: "k \<in> set (tl r)" for k
      proof -
        have "k \<in> dom (cameFrom s)" using tl k by blast
        then obtain p where p: "cameFrom s k = Some p" by blast
        have "k \<in> set (getNeighbors (gridSize pf) (fst p) (snd p))"
          and "grid pf ! nat (snd k) ! nat (fst k) < 100"
          using search_invD(7) [OF 2(1) p] by simp_all
        then show ?thesis
          using getNeighbors_cells [of "gridSize pf" "fst p" "snd p"] by (auto simp: cells_iff)
      qed
      moreover have "route = map (gridToLatLng (pf_bounds pf) (gridSize pf)) r"
        using fp 2(3) by simp
      ultimately show ?thesis by blast
    qed
  qed

qed

text \<open>
  On a region with \<open>minLat < maxLat\<close> and \<open>minLng < maxLng\<close> a point is the centre of
  one cell only, so there no point of a route after the first is the centre of a cell of
  risk 100 or more.
\<close>

lemma route_avoids_walls:
  assumes fp: "findPath pf a e t = Some route" and i: "0 < i" "i < length route"
    and b: "minLat (pf_bounds pf) < maxLat (pf_bounds pf)" "minLng (pf_bounds pf) < maxLng (pf_bounds pf)"
    and c: "isValid (gridSize pf) (fst c) (snd c)"
      "gridToLatLng (pf_bounds pf) (gridSize pf) c = route ! i"
  shows "grid pf ! nat (snd c) ! nat (fst c) < 100"

proof -
  obtain r where r: "route = map (gridToLatLng (pf_bounds pf) (gridSize pf)) r"
     "\<forall>k \<in> set (tl r). isValid (gridSize pf) (fst k) (snd k)
                    \<and> grid pf ! nat (snd k) ! nat (fst k) < 100"
    using route_cells [OF fp] by blast
  have len: "i < length r" using i(2) r(1) by simp
  have "r ! i = tl r ! (i - 1)"
    using i(1) len by (cases r) (auto simp: nth_Cons')
  moreover have "i - 1 < length (tl r)" using i(1) len by simp
  ultimately have mem: "r ! i \<in> set (tl r)" by (metis nth_mem)
  then have k: "isValid (gridSize pf) (fst (r ! i)) (snd (r ! i))"
    "grid pf ! nat (snd (r ! i)) ! nat (fst (r ! i)) < 100"
    using r(2) by simp_all
  have "gridToLatLng (pf_bounds pf) (gridSize pf) c = gridToLatLng (pf_bounds pf) (gridSize pf) (r ! i)"
    using c(2) r(1) len by simp
  then have "latLngToGrid (pf_bounds pf) (gridSize pf) (gridToLatLng (pf_bounds pf) (gridSize pf) (fst c, snd c))
      = latLngToGrid (pf_bounds pf) (gridSize pf) (gridToLatLng (pf_bounds pf) (gridSize pf) (fst (r ! i), snd (r ! i)))"
    by simp
  then have "c = r ! i"
    unfolding cell_roundtrip [OF c(1) b] cell_roundtrip [OF k(1) b] by simp
  with k(2) show ?thesis by simp

qed





lemma neighbors2:
  "getNeighbors 2 0 0 = [(0, 1), (1, 0), (1, 1)]"
  "getNeighbors 2 1 0 = [(1, 1), (0, 0), (0, 1)]"
  "getNeighbors 2 0 1 = [(0, 0), (1, 1), (1, 0)]"
  "getNeighbors 2 1 1 = [(1, 0), (0, 1), (0, 0)]"
  by (simp_all add: getNeighbors_def directions_def isValid_def)







lemma walled_centres:
  "gridToLatLng (pf_bounds plot) 2 (1, 0) = eastSouth"
  "gridToLatLng (pf_bounds plot) 2 (1, 1) = eastNorth"
  "gridToLatLng (pf_bounds plot) 2 (0, 0) = nook"
  by (simp_all add: gridToLatLng_def plot_def eastSouth_def eastNorth_def nook_def)





section \<open>Clamping\<close>

lemma findPath_search:
  assumes "0 < gridSize pf"
  shows "findPath pf a b t = search pf (latLngToGrid (pf_bounds pf) (gridSize pf) a)
                                    (latLngToGrid (pf_bounds pf) (gridSize pf) b) t"
  using latLngToGrid_valid [OF assms, of "pf_bounds pf"]
  by (simp add: findPath_def Let_def)

lemma getRisk_terrain:
  assumes "0 < gridSize pf"
  shows "getRisk pf p =
     min 100 (case weatherSystem pf of
                None \<Rightarrow> grid pf ! nat (snd (latLngToGrid (pf_bounds pf) (gridSize pf) p))
                               ! nat (fst (latLngToGrid (pf_bounds pf) (gridSize pf) p))
              | Some ws \<Rightarrow> max (grid pf ! nat (snd (latLngToGrid (pf_bounds pf) (gridSize pf) p))
                                       ! nat (fst (latLngToGrid (pf_bounds pf) (gridSize pf) p)))
                                (w_getRisk ws p))"
  using latLngToGrid_valid [OF assms, of "pf_bounds pf" p]
  by (auto simp: getRisk_def Let_def split: prod.splits option.splits)

lemma getWeatherAt_cell:
  assumes "0 < w_gridSize ws" and "w_bounds ws = Some bw"
  shows "getWeatherAt ws p = weatherGrid ws ! nat (snd (latLngToGrid bw (w_gridSize ws) p))
                                           ! nat (fst (latLngToGrid bw (w_gridSize ws) p))"
  using latLngToGrid_valid [OF assms(1), of bw p] assms(2)
  by (auto simp: getWeatherAt_def split: prod.splits)

text \<open>
  C9. On a grid with at least one cell, over a region with \<open>minLat < maxLat\<close> and
  \<open>minLng < maxLng\<close>, \<open>latLngToGrid\<close> maps every point, inside the region or not, to a
  cell with both coordinates in \<open>[0, gridSize)\<close>. So \<open>findPath\<close> never takes its
  out-of-bounds branch (it is the search from the two clamped cells), and the terrain
  read of \<open>getRisk\<close> and \<open>getWeatherAt\<close> always take the grid cell and never the fallback
  for an invalid cell. (On a region of zero height or width the code divides zero by
  zero, and the \<open>NaN\<close> it gets is not a valid coordinate: see the note at
  \<open>latLngToGrid\<close>.)
\<close>

theorem clamped_cell_is_valid:
  assumes "0 < gridSize pf"
    and "minLat (pf_bounds pf) < maxLat (pf_bounds pf)"
    and "minLng (pf_bounds pf) < maxLng (pf_bounds pf)"
    and "c = latLngToGrid (pf_bounds pf) (gridSize pf) p"
  shows "0 \<le> fst c \<and> fst c < int (gridSize pf) \<and> 0 \<le> snd c \<and> snd c < int (gridSize pf)
       \<and> isValid (gridSize pf) (fst c) (snd c)
       \<and> findPath pf a b t = search pf (latLngToGrid (pf_bounds pf) (gridSize pf) a)
                                       (latLngToGrid (pf_bounds pf) (gridSize pf) b) t
       \<and> getRisk pf p = min 100 (case weatherSystem pf of
                                   None \<Rightarrow> grid pf ! nat (snd c) ! nat (fst c)
                                 | Some ws \<Rightarrow> max (grid pf ! nat (snd c) ! nat (fst c)) (w_getRisk ws p))
       \<and> (\<forall>ws bw. 0 < w_gridSize ws \<and> w_bounds ws = Some bw
                  \<and> minLat bw < maxLat bw \<and> minLng bw < maxLng bw \<longrightarrow>
             isValid (w_gridSize ws) (fst (latLngToGrid bw (w_gridSize ws) p))
                                     (snd (latLngToGrid bw (w_gridSize ws) p))
             \<and> getWeatherAt ws p = weatherGrid ws ! nat (snd (latLngToGrid bw (w_gridSize ws) p))
                                                   ! nat (fst (latLngToGrid bw (w_gridSize ws) p)))"

proof -
  have v: "isValid (gridSize pf) (fst c) (snd c)"
    unfolding assms(4) by (rule latLngToGrid_valid [OF assms(1)])
  then have r: "0 \<le> fst c \<and> fst c < int (gridSize pf) \<and> 0 \<le> snd c \<and> snd c < int (gridSize pf)"
    by (simp add: isValid_def)
  have w: "\<forall>ws bw. 0 < w_gridSize ws \<and> w_bounds ws = Some bw
                  \<and> minLat bw < maxLat bw \<and> minLng bw < maxLng bw \<longrightarrow>
             isValid (w_gridSize ws) (fst (latLngToGrid bw (w_gridSize ws) p))
                                     (snd (latLngToGrid bw (w_gridSize ws) p))
             \<and> getWeatherAt ws p = weatherGrid ws ! nat (snd (latLngToGrid bw (w_gridSize ws) p))
                                                   ! nat (fst (latLngToGrid bw (w_gridSize ws) p))"
    using latLngToGrid_valid getWeatherAt_cell by blast
  show ?thesis
    using v r w findPath_search [OF assms(1), of a b t] getRisk_terrain [OF assms(1), of p]
    unfolding assms(4) by blast

qed

theorem clamped_cell_is_valid_witness:
  "0 < gridSize coast
   \<and> minLat (pf_bounds coast) < maxLat (pf_bounds coast)
   \<and> minLng (pf_bounds coast) < maxLng (pf_bounds coast)
   \<and> latLngToGrid (pf_bounds coast) (gridSize coast) farAway = (1, 0)
   \<and> isValid (gridSize coast) (fst (1::int, 0::int)) (snd (1::int, 0::int))
   \<and> findPath coast farAway farAway 50 = search coast (1, 0) (1, 0) 50
   \<and> 0 < w_gridSize front
   \<and> w_bounds front = Some \<lparr> minLat = 0, maxLat = 2, minLng = 0, maxLng = 2 \<rparr>
   \<and> getWeatherAt front farAway = Some gale
   \<and> getRisk coast farAway = 75"

proof -
  have pos: "0 < gridSize coast" by (simp add: coast_def plot_def)
  have b: "minLat (pf_bounds coast) < maxLat (pf_bounds coast)"
    "minLng (pf_bounds coast) < maxLng (pf_bounds coast)"
    by (simp_all add: coast_def plot_def)
  have c: "latLngToGrid (pf_bounds coast) (gridSize coast) farAway = (1, 0)"
    by (simp add: latLngToGrid_def coast_def plot_def farAway_def)
  have wpos: "0 < w_gridSize front" by (simp add: front_def)
  have wb: "w_bounds front = Some \<lparr> minLat = 0, maxLat = 2, minLng = 0, maxLng = 2 \<rparr>"
    by (simp add: front_def)
  have wc: "latLngToGrid \<lparr> minLat = 0, maxLat = 2, minLng = 0, maxLng = 2 \<rparr> (w_gridSize front) farAway = (1, 0)"
    by (simp add: latLngToGrid_def front_def farAway_def)
  note T = clamped_cell_is_valid [OF pos b c [symmetric], of farAway farAway 50]
  have "findPath coast farAway farAway 50
      = search coast (latLngToGrid (pf_bounds coast) (gridSize coast) farAway)
                     (latLngToGrid (pf_bounds coast) (gridSize coast) farAway) 50"
    using T by (elim conjE)
  then have fp: "findPath coast farAway farAway 50 = search coast (1, 0) (1, 0) 50"
    unfolding c .
  have v: "isValid (gridSize coast) (fst (1::int, 0::int)) (snd (1::int, 0::int))"
    using T by (elim conjE)
  have "getWeatherAt front farAway
      = weatherGrid front ! nat (snd (latLngToGrid \<lparr> minLat = 0, maxLat = 2, minLng = 0, maxLng = 2 \<rparr> (w_gridSize front) farAway))
                          ! nat (fst (latLngToGrid \<lparr> minLat = 0, maxLat = 2, minLng = 0, maxLng = 2 \<rparr> (w_gridSize front) farAway))"
  proof -
    from T have "0 < w_gridSize front \<and> w_bounds front = Some \<lparr> minLat = 0, maxLat = 2, minLng = 0, maxLng = 2 \<rparr>
        \<and> minLat \<lparr> minLat = 0, maxLat = 2, minLng = 0, maxLng = 2 \<rparr> < maxLat \<lparr> minLat = 0, maxLat = 2, minLng = 0, maxLng = 2 \<rparr>
        \<and> minLng \<lparr> minLat = 0, maxLat = 2, minLng = 0, maxLng = 2 \<rparr> < maxLng \<lparr> minLat = 0, maxLat = 2, minLng = 0, maxLng = 2 \<rparr>
      \<longrightarrow> isValid (w_gridSize front)
            (fst (latLngToGrid \<lparr> minLat = 0, maxLat = 2, minLng = 0, maxLng = 2 \<rparr> (w_gridSize front) farAway))
            (snd (latLngToGrid \<lparr> minLat = 0, maxLat = 2, minLng = 0, maxLng = 2 \<rparr> (w_gridSize front) farAway))
        \<and> getWeatherAt front farAway
      = weatherGrid front ! nat (snd (latLngToGrid \<lparr> minLat = 0, maxLat = 2, minLng = 0, maxLng = 2 \<rparr> (w_gridSize front) farAway))
                          ! nat (fst (latLngToGrid \<lparr> minLat = 0, maxLat = 2, minLng = 0, maxLng = 2 \<rparr> (w_gridSize front) farAway))"
      by (elim conjE allE)
    then show ?thesis using wpos wb by simp
  qed
  then have gw: "getWeatherAt front farAway = Some gale"
    unfolding wc by (simp add: front_def)
  have "getRisk coast farAway = min 100 (max (grid coast ! nat (snd (1::int, 0::int)) ! nat (fst (1::int, 0::int))) (w_getRisk front farAway))"
  proof -
    from T have "getRisk coast farAway = min 100 (case weatherSystem coast of
                   None \<Rightarrow> grid coast ! nat (snd (1::int, 0::int)) ! nat (fst (1::int, 0::int))
                 | Some ws \<Rightarrow> max (grid coast ! nat (snd (1::int, 0::int)) ! nat (fst (1::int, 0::int)))
                                  (w_getRisk ws farAway))"
      by (elim conjE)
    then show ?thesis by (simp add: coast_def)
  qed
  then have gr: "getRisk coast farAway = 75"
    using gw by (simp add: w_getRisk_def coast_def plot_def gale_def)
  from pos b c v fp wpos wb gw gr show ?thesis by blast

qed

section \<open>Step cost\<close>

subsection \<open>The cost of a step\<close>

lemma distCost_neighbor:
  assumes "n \<in> set (getNeighbors k (fst c) (snd c))"
  shows "distCost c n = (if fst n = fst c \<or> snd n = snd c then 1 else sqrt 2)"

proof -
  obtain nx ny where n: "n = (nx, ny)" by (cases n)
  obtain cx cy where c: "c = (cx, cy)" by (cases c)
  define dx dy where "dx = nx - cx" and "dy = ny - cy"
  have "(dx, dy) \<noteq> (0, 0)" "\<bar>dx\<bar> \<le> 1" "\<bar>dy\<bar> \<le> 1"
    using assms unfolding n c set_getNeighbors dx_def dy_def by auto
  then have d: "dx \<in> {-1, 0, 1}" "dy \<in> {-1, 0, 1}" "dx \<noteq> 0 \<or> dy \<noteq> 0"
    unfolding unit_step by auto
  have "distCost c n = sqrt ((real_of_int dx)\<^sup>2 + (real_of_int dy)\<^sup>2)"
    unfolding n c distCost_def dx_def dy_def by simp
  moreover have "(fst n = fst c \<or> snd n = snd c) \<longleftrightarrow> (dx = 0 \<or> dy = 0)"
    unfolding n c dx_def dy_def by auto
  ultimately show ?thesis
    using d by auto

qed

lemma relax_gScore:
  assumes "gScore (relax pf rw e c g n s) n \<noteq> gScore s n"
  shows "gScore (relax pf rw e c g n s) n
         = Some (g + distCost c n + riskCost (grid pf ! nat (snd n) ! nat (fst n)) rw)"
  using assms by (auto simp: relax_def Let_def split: if_splits)

lemma riskWeight_range:
  assumes "0 \<le> t" and "t \<le> 100"
  shows "riskWeight t = (100 - t) / 2" and "0 \<le> riskWeight t" and "riskWeight t \<le> 50"
  using assms by (simp_all add: riskWeight_def)

text \<open>
  What the code charges for a step: when the relaxation of \<open>neighbor\<close> from \<open>current\<close>
  stores a new score, it is the score of \<open>current\<close> plus 1 or \<open>sqrt 2\<close> plus the terrain
  risk of the neighbour times the risk weight over 10.
\<close>

lemma step_cost:
  assumes "neighbor \<in> set (getNeighbors (gridSize pf) (fst current) (snd current))"
    and "0 \<le> t" and "t \<le> 100"
    and "gScore (relax pf (riskWeight t) e current g neighbor s) neighbor \<noteq> gScore s neighbor"
  shows "gScore (relax pf (riskWeight t) e current g neighbor s) neighbor
         = Some (g + (if fst neighbor = fst current \<or> snd neighbor = snd current then 1 else sqrt 2)
                   + (grid pf ! nat (snd neighbor) ! nat (fst neighbor) * max 0 ((100 - t) / 2)) / 10)"
  using relax_gScore [OF assms(4)] distCost_neighbor [OF assms(1)]
  by (simp add: riskCost_def riskWeight_def)

subsection \<open>Weather and the planner\<close>

lemma coast_size: "gridSize coast = 2" "pf_bounds coast = pf_bounds plot" "grid coast = grid plot"
  by (simp_all add: coast_def plot_def)

lemma coast_storm_risk:
  "getRisk coast eastSouth = 75"
  by (simp add: getRisk_def coast_def plot_def front_def gale_def still_def w_getRisk_def
      getWeatherAt_def latLngToGrid_def eastSouth_def isValid_def)

text \<open>
  C1 on the code. The cell \<open>(1, 0)\<close> has terrain risk 10 and weather risk 75, so
  \<open>getRisk\<close> at its centre is 75; at tolerance 0 the claim prices the step from \<open>(0, 0)\<close>
  at \<open>1 + 75 * 50 / 10 = 376\<close>, and \<open>findPath\<close> stores \<open>1 + 10 * 50 / 10 = 51\<close>: it
  reads the terrain grid only.
\<close>

theorem step_cost_ignores_weather:
  "(1, 0) \<in> set (getNeighbors (gridSize coast) 0 0)
   \<and> gridToLatLng (pf_bounds coast) (gridSize coast) (1, 0) = eastSouth
   \<and> grid coast ! 0 ! 1 = 10
   \<and> w_getRisk front eastSouth = 75
   \<and> getRisk coast eastSouth = 75
   \<and> riskWeight 0 = 50
   \<and> gScore (relax coast (riskWeight 0) (1, 0) (0, 0) 0 (1, 0) (initial (0, 0) (1, 0))) (1, 0) = Some 51
   \<and> 0 + distCost (0, 0) (1, 0) + getRisk coast eastSouth * riskWeight 0 / 10 = 376"

proof -
  have 1: "(1, 0) \<in> set (getNeighbors (gridSize coast) 0 0)"
    by (simp add: coast_size neighbors2)
  have 2: "gridToLatLng (pf_bounds coast) (gridSize coast) (1, 0) = eastSouth"
    by (simp add: coast_size walled_centres)
  have 3: "grid coast ! 0 ! 1 = 10"
    by (simp add: coast_size plot_def)
  have 4: "w_getRisk front eastSouth = 75"
    by (simp add: front_def gale_def still_def w_getRisk_def getWeatherAt_def latLngToGrid_def
        eastSouth_def isValid_def)
  have 5: "riskWeight 0 = 50"
    by (simp add: riskWeight_def)
  have 6: "gScore (relax coast 50 (1, 0) (0, 0) 0 (1, 0) (initial (0, 0) (1, 0))) (1, 0) = Some 51"
    using 3 by (simp add: relax_def initial_def distCost_def riskCost_def Let_def)
  have 7: "0 + distCost (0, 0) (1, 0) + 75 * 50 / 10 = 376"
    by (simp add: distCost_def)
  show ?thesis
    unfolding coast_storm_risk 5 using 1 2 3 4 6 7 by simp

qed

section \<open>Mission driver at a hazard breach\<close>

lemma sqrt2_less_2: "sqrt 2 < 2"
  by (rule real_less_lsqrt) simp_all

lemma coast_airborne_risk: "getRisk coast airborne = 75"
  by (simp add: getRisk_def coast_def plot_def front_def gale_def still_def w_getRisk_def
      getWeatherAt_def latLngToGrid_def airborne_def isValid_def)

lemma sortie_tick:
  "simulationLoop coast sortie
   = (sortie\<lparr>missionState := (missionState sortie)\<lparr>progress := 0.2,
                   trailPoints := [eastSouth, airborne], battery := 79.5, paused := True\<rparr>,
             statusText := ''PAUSED''\<rparr>, Some airborne)"

proof -
  have pos: "\<lparr> lat = lat eastSouth + (lat westNorth - lat eastSouth) * 0.2,
              lng = lng eastSouth + (lng westNorth - lng eastSouth) * 0.2 \<rparr> = airborne"
    by (simp add: eastSouth_def westNorth_def airborne_def)
  show ?thesis
    using coast_airborne_risk pos
    by (simp add: simulationLoop_def sortie_def pauseMission_def Let_def)

qed

lemma coast_cells:
  "latLngToGrid (pf_bounds plot) 2 airborne = (1, 0)"
  "latLngToGrid (pf_bounds plot) 2 westNorth = (0, 1)"
  "gridToLatLng (pf_bounds plot) 2 (0, 1) = westNorth"
  by (simp_all add: latLngToGrid_def gridToLatLng_def plot_def airborne_def westNorth_def)

lemma coast_loop:
  "astar_loop coast 45 (0, 1) (initial (1, 0) (0, 1))
   = Found [(1, 1) \<mapsto> (1, 0), (0, 0) \<mapsto> (1, 0), (0, 1) \<mapsto> (1, 0)] (0, 1)"
  using sqrt2_less_2
  by (simp add: astar_loop.simps initial_def expand_def coast_size neighbors2 relax_def setAdd_def
      distCost_def riskCost_def heuristic_def plot_def Let_def)

lemma coast_reroute_path:
  "findPath coast airborne westNorth 10 = Some [eastSouth, westNorth]"
  by (simp add: findPath_def coast_size coast_cells isValid_def search_def riskWeight_def
       coast_loop reconstructPath_def reconstruct_loop.simps walled_centres Let_def)

text \<open>
  C3 on the code. A mission flies from the south-eastern to the north-western cell with
  battery 80. The tick moves the agent into the gale (risk 75), drains the battery to
  79.5, pauses the mission and schedules the re-route from the agent's position; the
  re-route finds a route of two points and calls \<open>startMission\<close>, which puts the battery
  back to 100 and empties the trail, where the claim keeps both.
\<close>

theorem reroute_resets_battery:
  "snd (simulationLoop coast sortie) = Some airborne
   \<and> getRisk coast airborne = 75
   \<and> active (missionState (fst (simulationLoop coast sortie)))
   \<and> paused (missionState (fst (simulationLoop coast sortie)))
   \<and> battery (missionState (fst (simulationLoop coast sortie))) = 79.5
   \<and> trailPoints (missionState (fst (simulationLoop coast sortie))) = [eastSouth, airborne]
   \<and> findPath coast airborne (endPoint sortie) 10 = Some [eastSouth, westNorth]
   \<and> map_option (active \<circ> missionState) (reroute coast airborne (fst (simulationLoop coast sortie))) = Some True
   \<and> map_option (paused \<circ> missionState) (reroute coast airborne (fst (simulationLoop coast sortie))) = Some False
   \<and> map_option (path \<circ> missionState) (reroute coast airborne (fst (simulationLoop coast sortie)))
       = Some [eastSouth, westNorth]
   \<and> map_option (currentIndex \<circ> missionState) (reroute coast airborne (fst (simulationLoop coast sortie))) = Some 0
   \<and> map_option (progress \<circ> missionState) (reroute coast airborne (fst (simulationLoop coast sortie))) = Some 0
   \<and> map_option (battery \<circ> missionState) (reroute coast airborne (fst (simulationLoop coast sortie))) = Some 100
   \<and> map_option (trailPoints \<circ> missionState) (reroute coast airborne (fst (simulationLoop coast sortie)))
       = Some [eastSouth]"

proof -
  have goal: "endPoint sortie = westNorth"
    by (simp add: sortie_def)
  have r: "reroute coast airborne (fst (simulationLoop coast sortie)) = Some after"
    if "after = sortie\<lparr>missionState := \<lparr> active = True, paused = False, path = [eastSouth, westNorth],
                               currentIndex = 0, progress = 0, battery = 100,
                               trailPoints = [eastSouth] \<rparr>\<rparr>" for after
    unfolding that sortie_tick
    using coast_reroute_path
    by (simp add: reroute_def goal startMission_def resumeMission_def) (simp add: sortie_def)
  show ?thesis
    unfolding r [OF refl] goal
    using coast_reroute_path coast_airborne_risk
    by (simp add: sortie_tick) (simp add: sortie_def)

qed

theorem reroute_resets_battery_witness:
  "battery (missionState (fst (simulationLoop coast sortie))) = 79.5
   \<and> map_option (battery \<circ> missionState) (reroute coast airborne (fst (simulationLoop coast sortie)))
       = Some 100"
  using reroute_resets_battery by blast

section \<open>Shortest routes\<close>

subsection \<open>A search that returns a longer route\<close>

lemma sqrt_between:
  assumes "0 \<le> lo" "lo\<^sup>2 < k" "0 \<le> hi" "k < hi\<^sup>2"
  shows "lo < sqrt k \<and> sqrt k < hi"
  using assms by (simp add: real_less_rsqrt real_less_lsqrt)

lemma sqrt_bounds:
  "1.4142 < sqrt 2 \<and> sqrt 2 < 1.4143"
  "2.2360 < sqrt 5 \<and> sqrt 5 < 2.2361"
  "3.6055 < sqrt 13 \<and> sqrt 13 < 3.6056"
  "4.1231 < sqrt 17 \<and> sqrt 17 < 4.1232"
  "4.4721 < sqrt 20 \<and> sqrt 20 < 4.4722"
  by (rule sqrt_between; simp add: power2_eq_square)+

lemma sqrt_squares: "sqrt 4 = 2" "sqrt 9 = 3" "sqrt 16 = 4" "sqrt 25 = 5"
  using real_sqrt_abs [of 2] real_sqrt_abs [of 3] real_sqrt_abs [of 4] real_sqrt_abs [of 5]
  by simp_all

lemma maze_neighbors:
  "getNeighbors 5 4 0 = [(4, 1), (3, 0), (3, 1)]"
  "getNeighbors 5 3 1 = [(3, 0), (3, 2), (2, 1), (4, 1), (2, 0), (4, 0), (2, 2), (4, 2)]"
  "getNeighbors 5 4 1 = [(4, 0), (4, 2), (3, 1), (3, 0), (3, 2)]"
  "getNeighbors 5 2 0 = [(2, 1), (1, 0), (3, 0), (1, 1), (3, 1)]"
  "getNeighbors 5 1 1 = [(1, 0), (1, 2), (0, 1), (2, 1), (0, 0), (2, 0), (0, 2), (2, 2)]"
  "getNeighbors 5 0 2 = [(0, 1), (0, 3), (1, 2), (1, 1), (1, 3)]"
  by (simp_all add: getNeighbors_def directions_def isValid_def)

lemmas maze_eval = astar_step_def expand_def maze_neighbors relax_def setAdd_def distCost_def
  riskCost_def heuristic_def maze_def sqrt_squares Let_def

lemma maze_step1: "astar_step maze 0 (0, 3) (initial (4, 0) (0, 3)) = Some maze_round1"
  using sqrt_bounds by (simp add: maze_eval initial_def maze_round1_def)

lemma maze_step2: "astar_step maze 0 (0, 3) maze_round1 = Some maze_round2"
  using sqrt_bounds by (simp add: maze_eval maze_round1_def maze_round2_def)

lemma maze_step3: "astar_step maze 0 (0, 3) maze_round2 = Some maze_round3"
  using sqrt_bounds by (simp add: maze_eval maze_round2_def maze_round3_def)

lemma maze_step4: "astar_step maze 0 (0, 3) maze_round3 = Some maze_round4"
  using sqrt_bounds by (simp add: maze_eval maze_round3_def maze_round4_def)

lemma maze_step5: "astar_step maze 0 (0, 3) maze_round4 = Some maze_round5"
  using sqrt_bounds by (simp add: maze_eval maze_round4_def maze_round5_def)

lemma maze_step6: "astar_step maze 0 (0, 3) maze_round5 = Some maze_round6"
  using sqrt_bounds by (simp add: maze_eval maze_round5_def maze_round6_def)

lemma astar_loop_step:
  assumes "astar_step pf rw e s = Some s'"
  shows "astar_loop pf rw e s = astar_loop pf rw e s'"
  using assms
  by (subst astar_loop.simps) (auto simp: astar_step_def split: list.splits if_splits option.splits)

lemma maze_found:
  "astar_loop maze 0 (0, 3) maze_round6 = Found (cameFrom maze_round6) (0, 3)"
  using sqrt_bounds by (subst astar_loop.simps) (simp add: maze_round6_def)

lemma maze_loop:
  "astar_loop maze 0 (0, 3) (initial (4, 0) (0, 3)) = Found (cameFrom maze_round6) (0, 3)"
  by (simp only: astar_loop_step [OF maze_step1] astar_loop_step [OF maze_step2]
      astar_loop_step [OF maze_step3] astar_loop_step [OF maze_step4]
      astar_loop_step [OF maze_step5] astar_loop_step [OF maze_step6] maze_found)

lemma maze_path:
  "reconstruct_loop (cameFrom maze_round6) (0, 3) [(0, 3)]
   = Some [(4, 0), (3, 1), (2, 0), (1, 1), (0, 2), (0, 3)]"
  by (simp add: reconstruct_loop.simps maze_round6_def)

lemma maze_cells:
  "gridSize maze = 5"
  "latLngToGrid (pf_bounds maze) 5 harbour = (4, 0)"
  "latLngToGrid (pf_bounds maze) 5 beacon = (0, 3)"
  by (simp_all add: latLngToGrid_def maze_def harbour_def beacon_def)

lemma maze_findPath:
  "findPath maze harbour beacon 100
   = Some (map (gridToLatLng (pf_bounds maze) (gridSize maze))
               [(4, 0), (3, 1), (2, 0), (1, 1), (0, 2), (0, 3)])"
  by (simp add: findPath_def maze_cells isValid_def search_def riskWeight_def maze_loop
      reconstructPath_def maze_path Let_def)

lemma maze_detour:
  "isRoute maze (4, 0) (0, 3) [(4, 0), (4, 1), (4, 2), (3, 3), (2, 3), (1, 3), (0, 3)]"
  by (simp add: isRoute_def getNeighbors_def directions_def isValid_def maze_def)

lemma maze_lengths:
  "routeLength [(4, 0), (3, 1), (2, 0), (1, 1), (0, 2), (0, 3)] = 1 + 4 * sqrt 2"
  "routeLength [(4, 0), (4, 1), (4, 2), (3, 3), (2, 3), (1, 3), (0, 3)] = 5 + sqrt 2"
  by (simp_all add: distCost_def)

text \<open>
  C4 on the code. With tolerance 100 the risk weight is 0, and on this grid of 5
  \<open>findPath\<close> from the cell \<open>(4, 0)\<close> to the cell \<open>(0, 3)\<close> returns a route of length
  \<open>1 + 4 * sqrt 2\<close> (about 6.66), while the route through \<open>(4, 2)\<close> and \<open>(3, 3)\<close>, which
  keeps to cells of risk 60, has length \<open>5 + sqrt 2\<close> (about 6.41). The cell \<open>(4, 2)\<close>
  was pushed with the \<open>f\<close> of its first, longer approach; the shorter approach found
  next changed \<open>gScore\<close> and \<open>fScore\<close> but not the frontier entry, which was sorted
  behind the goal.
\<close>

theorem stale_frontier_route_not_shortest:
  "riskWeight 100 = 0
   \<and> findPath maze harbour beacon 100
       = Some (map (gridToLatLng (pf_bounds maze) (gridSize maze))
                   [(4, 0), (3, 1), (2, 0), (1, 1), (0, 2), (0, 3)])
   \<and> routeLength [(4, 0), (3, 1), (2, 0), (1, 1), (0, 2), (0, 3)] = 1 + 4 * sqrt 2
   \<and> isRoute maze (4, 0) (0, 3) [(4, 0), (4, 1), (4, 2), (3, 3), (2, 3), (1, 3), (0, 3)]
   \<and> routeLength [(4, 0), (4, 1), (4, 2), (3, 3), (2, 3), (1, 3), (0, 3)] = 5 + sqrt 2
   \<and> 5 + sqrt 2 < 1 + 4 * sqrt 2
   \<and> snd (openSet maze_round3 ! 1) = 2 * sqrt 2 + sqrt 17
   \<and> fScore maze_round3 (4, 2) = Some (2 + sqrt 17)"

proof -
  have "riskWeight 100 = 0" by (simp add: riskWeight_def)
  moreover have "5 + sqrt 2 < 1 + 4 * sqrt 2"
    using sqrt_bounds(1) by simp
  moreover have "snd (openSet maze_round3 ! 1) = 2 * sqrt 2 + sqrt 17"
    "fScore maze_round3 (4, 2) = Some (2 + sqrt 17)"
    by (simp_all add: maze_round3_def)
  ultimately show ?thesis
    using maze_findPath maze_detour maze_lengths by simp

qed

theorem stale_frontier_route_not_shortest_witness:
  "isRoute maze (4, 0) (0, 3) [(4, 0), (4, 1), (4, 2), (3, 3), (2, 3), (1, 3), (0, 3)]
   \<and> routeLength [(4, 0), (4, 1), (4, 2), (3, 3), (2, 3), (1, 3), (0, 3)]
       < routeLength [(4, 0), (3, 1), (2, 0), (1, 1), (0, 2), (0, 3)]"
  using stale_frontier_route_not_shortest by simp

end
